theory Spec2Isabelle
  imports Complex_Main "HOL-Library.AList" "HOL-Library.Multiset"
begin

section \<open>Python values shared by the modules\<close>

text \<open>
  Exceptions of the Python code are values: every function that can raise returns
  \<open>py_error + 'a\<close>, with \<open>Inl\<close> for the exception. Python floats are idealised as
  \<open>real\<close> numbers (no rounding, no NaN unless a type says so); Python's unbounded
  non-negative integers (sizes, counts, indices) are \<open>nat\<close>.
\<close>

datatype py_error =
    ValueError string
  | FileNotFoundError string
  | RasterioIOError string
  | KeyError string
  | TypeError
  | ZeroDivisionError
  | NameError
  | IndexError
  | AssertionError string

text \<open>\<^verbatim>\<open>s.endswith(suf)\<close>\<close>

definition endswith :: "string \<Rightarrow> string \<Rightarrow> bool" where
  "endswith s suf \<longleftrightarrow> length suf \<le> length s \<and> drop (length s - length suf) s = suf"

section \<open>data/preprocessing.py: tile\_datasets\<close>

text \<open>
  A raster opened by rasterio, as far as tiling reads it: its width, height and number of
  bands. \<^verbatim>\<open>src.read(window=Window(x_off, y_off, w, h))\<close> returns an array of shape
  (count, rows, cols); a window that reaches over the edge of the raster is clipped to
  the raster, so the array is short there.
\<close>

record raster =
  width :: nat
  height :: nat
  band_count :: nat

record window =
  col_off :: nat
  row_off :: nat
  win_width :: nat
  win_height :: nat

definition read_shape :: "raster \<Rightarrow> window \<Rightarrow> nat list" where
  "read_shape src w =
     [band_count src,
      min (win_height w) (height src - row_off w),
      min (win_width w) (width src - col_off w)]"

text \<open>Decimal digits of a number, and the format \<^verbatim>\<open>{n:03d}\<close>.\<close>

fun digit_char :: "nat \<Rightarrow> char" where
  "digit_char n = char_of (48 + n)"

function decimal :: "nat \<Rightarrow> string" where
  "decimal n = (if n < 10 then [digit_char n] else decimal (n div 10) @ [digit_char (n mod 10)])"
  by pat_completeness auto
termination
  by (relation "measure id") auto

definition format_03d :: "nat \<Rightarrow> string" where
  "format_03d n = (let ds = decimal n in replicate (3 - length ds) CHR ''0'' @ ds)"

text \<open>One written tile pair: the file name shared by the image and the label tile, the
  window it was read at and the shapes of the two arrays written.\<close>

record tile =
  tile_name :: string
  tile_x_off :: nat
  tile_y_off :: nat
  sentinel_tile :: "nat list"
  prodes_tile :: "nat list"

definition tile_size :: nat where
  "tile_size = 512"

text \<open>The body of the inner loop, on the pair (tiles written so far, \<^verbatim>\<open>tile_count\<close>).
  The first branch is the \<^verbatim>\<open>continue\<close> of an incomplete tile.\<close>

definition tile_body ::
  "raster \<Rightarrow> raster \<Rightarrow> string \<Rightarrow> nat \<Rightarrow> nat \<Rightarrow> tile list \<times> nat \<Rightarrow> tile list \<times> nat" where
  "tile_body src_sentinel src_prodes prefix j i acc =
     (case acc of (written, tile_count) \<Rightarrow>
        let x_off = i * tile_size;
            y_off = j * tile_size;
            w = \<lparr>col_off = x_off, row_off = y_off, win_width = tile_size, win_height = tile_size\<rparr>;
            s_tile = read_shape src_sentinel w;
            p_tile = read_shape src_prodes w
        in if tl s_tile \<noteq> [tile_size, tile_size] \<or> tl p_tile \<noteq> [tile_size, tile_size]
           then (written, tile_count)
           else (written @ [\<lparr>tile_name = prefix @ ''_'' @ format_03d tile_count @ ''.tif'',
                              tile_x_off = x_off, tile_y_off = y_off,
                              sentinel_tile = s_tile, prodes_tile = p_tile\<rparr>],
                 tile_count + 1))"

definition tile_datasets :: "raster \<Rightarrow> raster \<Rightarrow> string \<Rightarrow> tile list" where
  "tile_datasets src_sentinel src_prodes prefix =
     (let tiles_x = width src_sentinel div tile_size;
          tiles_y = height src_sentinel div tile_size
      in fst (fold (\<lambda>j. fold (tile_body src_sentinel src_prodes prefix j) [0..<tiles_x])
                [0..<tiles_y] ([], 0)))"

text \<open>The tile that the grid cell with row-major index \<open>n\<close> should produce.\<close>

definition grid_tile :: "raster \<Rightarrow> raster \<Rightarrow> string \<Rightarrow> nat \<Rightarrow> tile" where
  "grid_tile src_sentinel src_prodes prefix n =
     (let tiles_x = width src_sentinel div tile_size
      in \<lparr>tile_name = prefix @ ''_'' @ format_03d n @ ''.tif'',
          tile_x_off = (n mod tiles_x) * tile_size,
          tile_y_off = (n div tiles_x) * tile_size,
          sentinel_tile = [band_count src_sentinel, tile_size, tile_size],
          prodes_tile = [band_count src_prodes, tile_size, tile_size]\<rparr>)"

section \<open>data/preprocessing.py: locating the band files\<close>

definition bands :: "string list" where
  "bands = [''B02'', ''B03'', ''B04'', ''B08'']"

text \<open>The pattern \<^verbatim>\<open>f'_{band}_10m.jp2'\<close> and \<^verbatim>\<open>os.path.join\<close> (POSIX).\<close>

definition band_suffix :: "string \<Rightarrow> string" where
  "band_suffix band = ''_'' @ band @ ''_10m.jp2''"

definition path_join :: "string \<Rightarrow> string \<Rightarrow> string" where
  "path_join a b =
     (if b \<noteq> [] \<and> hd b = CHR ''/'' then b
      else if a = [] \<or> last a = CHR ''/'' then a @ b
      else a @ ''/'' @ b)"

text \<open>The inner loop over the bands: the first band whose pattern the file name ends
  with, where the loop assigns and breaks.\<close>

fun match_band :: "string \<Rightarrow> string list \<Rightarrow> string option" where
  "match_band f [] = None"
| "match_band f (band # rest) =
     (if endswith f (band_suffix band) then Some band else match_band f rest)"

text \<open>\<^verbatim>\<open>process_sentinel\<close> starts from the empty dictionary \<^verbatim>\<open>band_paths\<close>; a dictionary is an
  association list with one entry per key (\<open>AList.update\<close> overwrites).\<close>

definition locate_step :: "string \<Rightarrow> string \<Rightarrow> (string \<times> string) list \<Rightarrow> (string \<times> string) list" where
  "locate_step input_folder f band_paths =
     (case match_band f bands of
        None \<Rightarrow> band_paths
      | Some band \<Rightarrow> AList.update band (path_join input_folder f) band_paths)"

definition locate_bands :: "string \<Rightarrow> string list \<Rightarrow> (string \<times> string) list" where
  "locate_bands input_folder listing = fold (locate_step input_folder) listing []"

text \<open>\<^verbatim>\<open>process_sentinel_fast\<close> starts from \<^verbatim>\<open>{band: None for band in bands}\<close>.\<close>

definition locate_step_fast ::
  "string \<Rightarrow> string \<Rightarrow> (string \<times> string option) list \<Rightarrow> (string \<times> string option) list" where
  "locate_step_fast input_folder f band_files =
     (case match_band f bands of
        None \<Rightarrow> band_files
      | Some band \<Rightarrow> AList.update band (Some (path_join input_folder f)) band_files)"

definition locate_bands_fast :: "string \<Rightarrow> string list \<Rightarrow> (string \<times> string option) list" where
  "locate_bands_fast input_folder listing =
     fold (locate_step_fast input_folder) listing (map (\<lambda>band. (band, None)) bands)"

text \<open>\<^verbatim>\<open>d[k]\<close> on a dictionary.\<close>

definition getitem :: "(string \<times> 'v) list \<Rightarrow> string \<Rightarrow> py_error + 'v" where
  "getitem d k = (case map_of d k of None \<Rightarrow> Inl (KeyError k) | Some v \<Rightarrow> Inr v)"

text \<open>A list comprehension whose element expression can raise: the first exception
  ends it.\<close>

fun collect :: "('a \<Rightarrow> py_error + 'b) \<Rightarrow> 'a list \<Rightarrow> py_error + 'b list" where
  "collect f [] = Inr []"
| "collect f (x # xs) =
     (case f x of
        Inl e \<Rightarrow> Inl e
      | Inr y \<Rightarrow> (case collect f xs of Inl e \<Rightarrow> Inl e | Inr ys \<Rightarrow> Inr (y # ys)))"

section \<open>data/preprocessing.py: scaling a band to 0..255\<close>

text \<open>
  A float32 pixel is a real number or NaN; rounding to 24 bits of mantissa is not
  modelled, and neither are the infinities: a division by zero gives \<open>NaN\<close> here (numpy
  gives an infinity or NaN, with a warning). A band is a two-dimensional array, a list
  of rows.
\<close>

datatype float32 = NaN | Fl real

fun f_sub :: "float32 \<Rightarrow> float32 \<Rightarrow> float32" where
  "f_sub (Fl x) (Fl y) = Fl (x - y)"
| "f_sub _ _ = NaN"

fun f_mul :: "float32 \<Rightarrow> float32 \<Rightarrow> float32" where
  "f_mul (Fl x) (Fl y) = Fl (x * y)"
| "f_mul _ _ = NaN"

fun f_div :: "float32 \<Rightarrow> float32 \<Rightarrow> float32" where
  "f_div (Fl x) (Fl y) = (if y = 0 then NaN else Fl (x / y))"
| "f_div _ _ = NaN"

text \<open>\<^verbatim>\<open>==\<close> on floats: NaN is equal to nothing.\<close>

fun f_eq :: "float32 \<Rightarrow> float32 \<Rightarrow> bool" where
  "f_eq (Fl x) (Fl y) = (x = y)"
| "f_eq _ _ = False"

text \<open>The values of a band that are not NaN, in row-major order.\<close>

definition finite_values :: "float32 list list \<Rightarrow> real list" where
  "finite_values band = concat (map (\<lambda>v. case v of NaN \<Rightarrow> [] | Fl x \<Rightarrow> [x]) (concat band))"

text \<open>\<^verbatim>\<open>np.nanmin\<close> and \<^verbatim>\<open>np.nanmax\<close>: a zero-size array raises ValueError, an array of
  NaN only gives NaN (with a warning).\<close>

definition nanmin :: "float32 list list \<Rightarrow> py_error + float32" where
  "nanmin band =
     (if concat band = [] then Inl (ValueError ''zero-size array to reduction operation'')
      else case finite_values band of [] \<Rightarrow> Inr NaN | x # xs \<Rightarrow> Inr (Fl (fold min xs x)))"

definition nanmax :: "float32 list list \<Rightarrow> py_error + float32" where
  "nanmax band =
     (if concat band = [] then Inl (ValueError ''zero-size array to reduction operation'')
      else case finite_values band of [] \<Rightarrow> Inr NaN | x # xs \<Rightarrow> Inr (Fl (fold max xs x)))"

text \<open>
  \<^verbatim>\<open>.astype(np.uint8)\<close> converts as C does: the fraction is cut off (truncation towards
  zero) and the integer is taken modulo 256. What a NaN converts to depends on the
  platform; it is the parameter \<open>nan_u8\<close>.
\<close>

definition trunc :: "real \<Rightarrow> int" where
  "trunc x = (if 0 \<le> x then \<lfloor>x\<rfloor> else \<lceil>x\<rceil>)"

definition astype_uint8 :: "nat \<Rightarrow> float32 \<Rightarrow> nat" where
  "astype_uint8 nan_u8 v = (case v of NaN \<Rightarrow> nan_u8 | Fl x \<Rightarrow> nat (trunc x mod 256))"

text \<open>The body of the loop "Stack bands and scale to 0-255", for one band.\<close>

definition scale_band :: "nat \<Rightarrow> float32 list list \<Rightarrow> py_error + nat list list" where
  "scale_band nan_u8 band_data =
     (case nanmin band_data of
        Inl e \<Rightarrow> Inl e
      | Inr min_val \<Rightarrow>
     (case nanmax band_data of
        Inl e \<Rightarrow> Inl e
      | Inr max_val \<Rightarrow>
          if f_eq max_val min_val then Inr (map (map (\<lambda>v. 0)) band_data)
          else Inr (map (map (\<lambda>v. astype_uint8 nan_u8
                      (f_mul (f_div (f_sub v min_val) (f_sub max_val min_val)) (Fl 255))))
                 band_data)))"


section \<open>data/preprocessing.py: process\_sentinel and process\_sentinel\_fast\<close>

text \<open>
  The rasterio calls are parameters: \<open>reproject path\<close> is the band read from \<open>path\<close> and
  warped onto the destination grid, \<open>read_band path\<close> the first band of the file at
  \<open>path\<close>. The folder is given by its listing (\<^verbatim>\<open>os.listdir\<close>). A function returns the
  files it has written, in order, besides its outcome; the acquisition-date tag is left
  out of a written file.
\<close>

record 'a gtiff =
  gtiff_path :: string
  gtiff_bands :: "'a list"

definition process_sentinel ::
  "(string \<Rightarrow> float32 list list) \<Rightarrow> nat \<Rightarrow> string list \<Rightarrow> string \<Rightarrow> string \<Rightarrow>
     nat list list gtiff list \<times> (py_error + unit)" where
  "process_sentinel reproject nan_u8 listing input_folder output_path =
     (let band_paths = locate_bands input_folder listing
      in if length band_paths \<noteq> 4
         then ([], Inl (ValueError ''Missing one or more Sentinel-2 band files.''))
         else (case collect (\<lambda>band. getitem band_paths band) bands of
                 Inl e \<Rightarrow> ([], Inl e)
               | Inr paths \<Rightarrow>
                   let sentinel_data = map reproject paths
                   in (case collect (scale_band nan_u8) sentinel_data of
                         Inl e \<Rightarrow> ([], Inl e)
                       | Inr scaled_stack \<Rightarrow>
                           ([\<lparr>gtiff_path = output_path, gtiff_bands = scaled_stack\<rparr>], Inr ()))))"

definition process_sentinel_fast ::
  "(string \<Rightarrow> 'a) \<Rightarrow> string list \<Rightarrow> string \<Rightarrow> string \<Rightarrow> 'a gtiff list \<times> (py_error + unit)" where
  "process_sentinel_fast read_band listing input_folder output_path =
     (let band_files = locate_bands_fast input_folder listing
      in if list_ex (\<lambda>v. v = None) (map snd band_files)
         then ([], Inl (ValueError ''One or more required band files are missing.''))
         else (case collect (\<lambda>band. getitem band_files band) bands of
                 Inl e \<Rightarrow> ([], Inl e)
               | Inr files \<Rightarrow>
                   (case collect (\<lambda>file. case file of None \<Rightarrow> Inl TypeError
                                          | Some path \<Rightarrow> Inr (read_band path)) files of
                      Inl e \<Rightarrow> ([], Inl e)
                    | Inr data_stack \<Rightarrow>
                        ([\<lparr>gtiff_path = output_path, gtiff_bands = data_stack\<rparr>], Inr ()))))"

section \<open>data/preprocessing.py: convert\_forest\_to\_binary\<close>

text \<open>The line \<^verbatim>\<open>np.where(img == forest_value, 255, 0).astype(np.uint8)\<close> on a band of
  integer class codes.\<close>

definition binary_mask :: "int list list \<Rightarrow> int \<Rightarrow> int list list" where
  "binary_mask img forest_value = map (map (\<lambda>p. if p = forest_value then 255 else 0)) img"

text \<open>The function reads the first band of \<^verbatim>\<open>input_tiff\<close> and writes the mask to
  \<^verbatim>\<open>output_tiff\<close>; the files are a map from paths to single-band rasters.\<close>

definition convert_forest_to_binary ::
  "(string \<rightharpoonup> int list list) \<Rightarrow> string \<Rightarrow> string \<Rightarrow> int \<Rightarrow> py_error + (string \<rightharpoonup> int list list)" where
  "convert_forest_to_binary files input_tiff output_tiff forest_value =
     (case files input_tiff of
        None \<Rightarrow> Inl (RasterioIOError input_tiff)
      | Some img \<Rightarrow> Inr (files(output_tiff \<mapsto> binary_mask img forest_value)))"

section \<open>data/preprocessing.py: split\_dataset\<close>


record split =
  train_files :: "string list"
  val_files :: "string list"
  test_files :: "string list"



section \<open>data/dataset.py: SatelliteSegmentationDataset\<close>

text \<open>
  An array (numpy array or torch tensor) is its shape and its elements in row-major
  order, as numpy stores it. \<open>read_file path\<close> is what \<^verbatim>\<open>rasterio.open(path).read()\<close>
  returns: an array of shape (C, H, W) of the stored pixel values.
\<close>

record 'a ndarray =
  shape :: "nat list"
  elems :: "'a list"

text \<open>\<^verbatim>\<open>mask_file.read(1)\<close>: the first band, of shape (H, W).\<close>

definition read_band1 :: "nat ndarray \<Rightarrow> py_error + nat ndarray" where
  "read_band1 a =
     (case shape a of
        [c, h, w] \<Rightarrow> if c = 0 then Inl IndexError
                     else Inr \<lparr>shape = [h, w], elems = take (h * w) (elems a)\<rparr>
      | _ \<Rightarrow> Inl IndexError)"

text \<open>\<^verbatim>\<open>np.transpose(img, (1, 2, 0))\<close>: the element at (h, w, c) of the result is the
  element at (c, h, w) of the argument.\<close>

definition transpose_120 :: "'a ndarray \<Rightarrow> py_error + 'a ndarray" where
  "transpose_120 a =
     (case shape a of
        [c, h, w] \<Rightarrow>
          Inr \<lparr>shape = [h, w, c],
               elems = concat (map (\<lambda>y. concat (map (\<lambda>x. map (\<lambda>k. elems a ! ((k * h + y) * w + x))
                                  [0..<c]) [0..<w])) [0..<h])\<rparr>
      | _ \<Rightarrow> Inl (ValueError ''axes do not match array''))"

text \<open>\<^verbatim>\<open>t.unsqueeze(0)\<close>\<close>

definition unsqueeze0 :: "'a ndarray \<Rightarrow> 'a ndarray" where
  "unsqueeze0 t = t\<lparr>shape := 1 # shape t\<rparr>"

text \<open>The augmentation pipeline is a function from the image and the mask to the
  augmented image and mask, or absent.\<close>

type_synonym transform = "real ndarray \<Rightarrow> nat ndarray \<Rightarrow> real ndarray \<times> nat ndarray"

record dataset =
  img_files :: "string list"
  mask_files :: "string list"
  transform :: "transform option"

text \<open>\<^verbatim>\<open>__init__\<close>, from the sorted results of the two globs.\<close>

definition dataset_init :: "string list \<Rightarrow> string list \<Rightarrow> transform option \<Rightarrow> py_error + dataset" where
  "dataset_init imgs masks tr =
     (if length imgs \<noteq> length masks then Inl (AssertionError ''Mismatched images/masks!'')
      else Inr \<lparr>img_files = imgs, mask_files = masks, transform = tr\<rparr>)"

definition dataset_len :: "dataset \<Rightarrow> nat" where
  "dataset_len self = length (img_files self)"

definition dataset_getitem ::
  "(string \<Rightarrow> nat ndarray) \<Rightarrow> dataset \<Rightarrow> nat \<Rightarrow> py_error + (real ndarray \<times> nat ndarray)" where
  "dataset_getitem read_file self idx =
     (if \<not> idx < length (img_files self) then Inl IndexError
      else let raw = read_file (img_files self ! idx);
               img = \<lparr>shape = shape raw, elems = map (\<lambda>v. real v / 255) (elems raw)\<rparr>
      in if \<not> idx < length (mask_files self) then Inl IndexError
      else (case read_band1 (read_file (mask_files self ! idx)) of
              Inl e \<Rightarrow> Inl e
            | Inr band \<Rightarrow>
                let mask = \<lparr>shape = shape band, elems = map (\<lambda>v. if v > 0 then 1 else 0) (elems band)\<rparr>
                in (case transpose_120 img of
                      Inl e \<Rightarrow> Inl e
                    | Inr img \<Rightarrow>
                        (case transform self of
                           Some tr \<Rightarrow>
                             let augmented = tr img mask
                             in Inr (fst augmented, unsqueeze0 (snd augmented))
                         | None \<Rightarrow> Inr (img, mask)))))"

text \<open>The elements, in the row-major order of the layout (H, W, C), of the array whose
  element at the position \<open>i\<close> of the layout (C, H, W) is \<open>f i\<close>.\<close>

definition hwc_elems :: "nat \<Rightarrow> nat \<Rightarrow> nat \<Rightarrow> (nat \<Rightarrow> 'a) \<Rightarrow> 'a list" where
  "hwc_elems c h w f =
     concat (map (\<lambda>y. concat (map (\<lambda>x. map (\<lambda>k. f ((k * h + y) * w + x)) [0..<c]) [0..<w])) [0..<h])"

section \<open>model/loss.py: DiceBCELoss\<close>

text \<open>
  A tensor is the list of its elements here: every reduction of the loss runs over all
  elements of the batch. \<^verbatim>\<open>nn.BCEWithLogitsLoss()\<close> is torch's: the mean over the elements
  of \<open>- (y * ln (\<sigma> x) + (1 - y) * ln (1 - \<sigma> x))\<close>.
\<close>

definition sigmoid :: "real \<Rightarrow> real" where
  "sigmoid x = 1 / (1 + exp (- x))"

definition bce_with_logits :: "real list \<Rightarrow> real list \<Rightarrow> real" where
  "bce_with_logits preds targets =
     sum_list (map (\<lambda>(x, y). - (y * ln (sigmoid x) + (1 - y) * ln (1 - sigmoid x)))
                 (zip preds targets)) / real (length preds)"

record DiceBCELoss =
  weight_bce :: real
  weight_dice :: real

definition forward :: "DiceBCELoss \<Rightarrow> real list \<Rightarrow> real list \<Rightarrow> real" where
  "forward self preds targets =
     (let bce_loss = bce_with_logits preds targets;
          preds_sigmoid = map sigmoid preds;
          smooth = 1;
          intersection = sum_list (map (\<lambda>(p, t). p * t) (zip preds_sigmoid targets));
          dice_loss = 1 - (2 * intersection + smooth)
                            / (sum_list preds_sigmoid + sum_list targets + smooth)
      in weight_bce self * bce_loss + weight_dice self * dice_loss)"

section \<open>training/training.py: run\_epoch\<close>

text \<open>
  What torch holds while a model is trained is a value of type \<open>('w, 'r) world\<close>: the
  weights of the model (\<^verbatim>\<open>model.state_dict()\<close>) and the rest (the optimizer, the
  scheduler, the gradient scaler and the metric accumulators). The calls into torch and
  torchmetrics are parameters, gathered in a record:
  \<^item> \<open>batch_step\<close> is the body of the loop over the batches of \<^verbatim>\<open>run_epoch\<close> (forward pass
    and loss; in the training phase the backward pass, unscaling, clipping and optimizer
    step; the update of the accumulators of the phase), returning \<^verbatim>\<open>loss.item()\<close>;
  \<^item> \<open>compute_metrics\<close> is \<^verbatim>\<open>metric.compute().item()\<close> for the five metrics that
    \<^verbatim>\<open>initialize_metrics\<close> creates for a phase;
  \<^item> \<open>scheduler_step\<close> is \<^verbatim>\<open>scheduler.step(val_loss)\<close> and \<open>reset_metrics\<close> is
    \<^verbatim>\<open>reset_metrics(metrics)\<close>;
  \<^item> \<open>epoch_seconds e\<close> is the time that the clock measures for epoch \<open>e\<close>.
  A loader is the list of its batches.
\<close>

datatype phase = Train | Val

record metric_values =
  GeneralizedDice :: real
  IoU :: real
  Precision :: real
  Recall :: real
  F1 :: real

record ('w, 'r) world =
  model_state :: 'w
  rest :: 'r

record ('b, 'w, 'r) torch =
  batch_step :: "phase \<Rightarrow> 'b \<Rightarrow> ('w, 'r) world \<Rightarrow> real \<times> ('w, 'r) world"
  compute_metrics :: "phase \<Rightarrow> ('w, 'r) world \<Rightarrow> metric_values"
  scheduler_step :: "real \<Rightarrow> ('w, 'r) world \<Rightarrow> ('w, 'r) world"
  reset_metrics :: "('w, 'r) world \<Rightarrow> ('w, 'r) world"
  epoch_seconds :: "nat \<Rightarrow> real"

text \<open>The loop over the batches, on the pair (\<^verbatim>\<open>loss_total\<close>, world).\<close>

fun run_batches ::
  "('b, 'w, 'r) torch \<Rightarrow> phase \<Rightarrow> 'b list \<Rightarrow> real \<times> ('w, 'r) world \<Rightarrow> real \<times> ('w, 'r) world" where
  "run_batches T ph [] acc = acc"
| "run_batches T ph (b # bs) acc =
     (case acc of (loss_total, w) \<Rightarrow>
        (case batch_step T ph b w of (l, w') \<Rightarrow> run_batches T ph bs (loss_total + l, w')))"

definition run_epoch ::
  "('b, 'w, 'r) torch \<Rightarrow> 'b list \<Rightarrow> phase \<Rightarrow> ('w, 'r) world \<Rightarrow>
     py_error + ((real \<times> metric_values) \<times> ('w, 'r) world)" where
  "run_epoch T loader ph w =
     (case run_batches T ph loader (0, w) of (loss_total, w') \<Rightarrow>
        if length loader = 0 then Inl ZeroDivisionError
        else let avg_loss = loss_total / real (length loader);
                 metrics_results = compute_metrics T ph w'
             in Inr ((avg_loss, metrics_results), w'))"

section \<open>training/training.py: train\_model\<close>

text \<open>An epoch metrics record, \<^verbatim>\<open>{'loss': loss, **metrics}\<close>.\<close>

record epoch_record = metric_values +
  loss :: real

definition with_loss :: "real \<Rightarrow> metric_values \<Rightarrow> epoch_record" where
  "with_loss l m =
     \<lparr>GeneralizedDice = GeneralizedDice m, IoU = IoU m, Precision = Precision m,
      Recall = Recall m, F1 = F1 m, loss = l\<rparr>"

text \<open>The local variables of \<^verbatim>\<open>train_model\<close>, with the world (\<open>live\<close>) and the checkpoint
  file that \<^verbatim>\<open>save_checkpoint\<close> writes. \<open>epoch\<close> is \<open>None\<close> as long as the loop variable is
  unbound.\<close>

record ('w, 'r) train_state =
  live :: "('w, 'r) world"
  best_dice :: real
  best_model_state :: "'w option"
  no_improve :: nat
  epoch_times :: "real list"
  epoch_val_metrics :: "epoch_record list"
  epoch_train_metrics :: "epoch_record list"
  epoch :: "nat option"
  checkpoint :: "'w option"

definition patience :: nat where
  "patience = 7"

definition initial_state :: "('w, 'r) world \<Rightarrow> ('w, 'r) train_state" where
  "initial_state w =
     \<lparr>live = w, best_dice = 0, best_model_state = None, no_improve = 0, epoch_times = [],
      epoch_val_metrics = [], epoch_train_metrics = [], epoch = None, checkpoint = None\<rparr>"

text \<open>The two phases of an epoch: the training pass, then the validation pass on the
  world that the training pass left.\<close>

definition run_phases ::
  "('b, 'w, 'r) torch \<Rightarrow> 'b list \<Rightarrow> 'b list \<Rightarrow> ('w, 'r) world \<Rightarrow>
     py_error + ((real \<times> metric_values) \<times> (real \<times> metric_values) \<times> ('w, 'r) world)" where
  "run_phases T train_loader val_loader w =
     (case run_epoch T train_loader Train w of
        Inl e \<Rightarrow> Inl e
      | Inr (tr, w1) \<Rightarrow>
          (case run_epoch T val_loader Val w1 of
             Inl e \<Rightarrow> Inl e
           | Inr (va, w2) \<Rightarrow> Inr (tr, va, w2)))"

text \<open>The end of the loop body, which a \<^verbatim>\<open>break\<close> skips: scheduler step, epoch time,
  reset of the accumulators.\<close>

definition end_of_epoch ::
  "('b, 'w, 'r) torch \<Rightarrow> nat \<Rightarrow> real \<Rightarrow> ('w, 'r) train_state \<Rightarrow> ('w, 'r) train_state" where
  "end_of_epoch T e val_loss st =
     st\<lparr>live := reset_metrics T (scheduler_step T val_loss (live st)),
        epoch_times := epoch_times st @ [epoch_seconds T e]\<rparr>"

text \<open>The loop body for epoch \<open>e\<close>; the flag of the result says whether it left the loop
  by \<^verbatim>\<open>break\<close>.\<close>

definition epoch_body ::
  "('b, 'w, 'r) torch \<Rightarrow> 'b list \<Rightarrow> 'b list \<Rightarrow> nat \<Rightarrow> ('w, 'r) train_state \<Rightarrow>
     py_error + (bool \<times> ('w, 'r) train_state)" where
  "epoch_body T train_loader val_loader e st =
     (case run_phases T train_loader val_loader (live st) of
        Inl err \<Rightarrow> Inl err
      | Inr ((train_loss, train_metrics), (val_loss, val_metrics), w) \<Rightarrow>
          let st = st\<lparr>epoch := Some e, live := w,
                      epoch_val_metrics := epoch_val_metrics st @ [with_loss val_loss val_metrics],
                      epoch_train_metrics := epoch_train_metrics st @ [with_loss train_loss train_metrics]\<rparr>
          in if GeneralizedDice val_metrics > best_dice st
             then Inr (False, end_of_epoch T e val_loss
                        (st\<lparr>best_dice := GeneralizedDice val_metrics,
                            best_model_state := Some (model_state w),
                            checkpoint := Some (model_state w),
                            no_improve := 0\<rparr>))
             else let st = st\<lparr>no_improve := no_improve st + 1\<rparr>
                  in if no_improve st = patience then Inr (True, st)
                     else Inr (False, end_of_epoch T e val_loss st))"

text \<open>\<^verbatim>\<open>for epoch in range(epochs)\<close>, over the list of the epochs left.\<close>

fun epoch_loop ::
  "('b, 'w, 'r) torch \<Rightarrow> 'b list \<Rightarrow> 'b list \<Rightarrow> nat list \<Rightarrow> ('w, 'r) train_state \<Rightarrow>
     py_error + (bool \<times> ('w, 'r) train_state)" where
  "epoch_loop T train_loader val_loader [] st = Inr (False, st)"
| "epoch_loop T train_loader val_loader (e # es) st =
     (case epoch_body T train_loader val_loader e st of
        Inl err \<Rightarrow> Inl err
      | Inr (True, st') \<Rightarrow> Inr (True, st')
      | Inr (False, st') \<Rightarrow> epoch_loop T train_loader val_loader es st')"

text \<open>The dictionary that \<^verbatim>\<open>train_model\<close> returns; the field for the key \<^verbatim>\<open>k\<close> is \<open>ret_k\<close>.\<close>

record ('w, 'r) train_result =
  ret_model :: "('w, 'r) world"
  ret_best_dice :: real
  ret_epoch_times :: "real list"
  ret_total_time :: real
  ret_avg_epoch_time :: real
  ret_epochs_run :: nat
  ret_epoch_val_metrics :: "epoch_record list"
  ret_epoch_train_metrics :: "epoch_record list"

text \<open>What follows the loop: the best weights are loaded if there are any, and the
  dictionary is built, its values evaluated in order.\<close>

definition finish :: "('w, 'r) train_state \<Rightarrow> py_error + ('w, 'r) train_result" where
  "finish st =
     (let model = (case best_model_state st of
                     None \<Rightarrow> live st
                   | Some best \<Rightarrow> (live st)\<lparr>model_state := best\<rparr>)
      in if length (epoch_times st) = 0 then Inl ZeroDivisionError
         else (case epoch st of
                 None \<Rightarrow> Inl NameError
               | Some e \<Rightarrow>
                   Inr \<lparr>ret_model = model,
                        ret_best_dice = best_dice st,
                        ret_epoch_times = epoch_times st,
                        ret_total_time = sum_list (epoch_times st),
                        ret_avg_epoch_time = sum_list (epoch_times st) / real (length (epoch_times st)),
                        ret_epochs_run = e + 1,
                        ret_epoch_val_metrics = epoch_val_metrics st,
                        ret_epoch_train_metrics = epoch_train_metrics st\<rparr>))"

definition train_model ::
  "('b, 'w, 'r) torch \<Rightarrow> 'b list \<Rightarrow> 'b list \<Rightarrow> nat \<Rightarrow> ('w, 'r) world \<Rightarrow>
     py_error + ('w, 'r) train_result" where
  "train_model T train_loader val_loader epochs w =
     (case epoch_loop T train_loader val_loader [0..<epochs] (initial_state w) of
        Inl err \<Rightarrow> Inl err
      | Inr (broke, st) \<Rightarrow> finish st)"

text \<open>The weights that the live model has when the validation pass of epoch \<open>e\<close> has
  ended, which is what \<^verbatim>\<open>deepcopy(model.state_dict())\<close> copies in that epoch: the loop
  runs the epochs before \<open>e\<close> without leaving, then the two phases of epoch \<open>e\<close>.\<close>

definition weights_after_validation ::
  "('b, 'w, 'r) torch \<Rightarrow> 'b list \<Rightarrow> 'b list \<Rightarrow> ('w, 'r) world \<Rightarrow> nat \<Rightarrow> 'w option" where
  "weights_after_validation T train_loader val_loader w0 e =
     (case epoch_loop T train_loader val_loader [0..<e] (initial_state w0) of
        Inr (False, st) \<Rightarrow>
          (case run_phases T train_loader val_loader (live st) of
             Inr (tr, va, w) \<Rightarrow> Some (model_state w)
           | Inl err \<Rightarrow> None)
      | _ \<Rightarrow> None)"

text \<open>The loop run with the budget \<open>n\<close>.\<close>

abbreviation epochs_upto ::
  "('b, 'w, 'r) torch \<Rightarrow> 'b list \<Rightarrow> 'b list \<Rightarrow> ('w, 'r) world \<Rightarrow> nat \<Rightarrow>
     py_error + (bool \<times> ('w, 'r) train_state)" where
  "epochs_upto T train_loader val_loader w0 n \<equiv>
     epoch_loop T train_loader val_loader [0..<n] (initial_state w0)"

text \<open>
  The control variables of the loop as a function of the validation scores seen so
  far, latest score first: the best score, the count of epochs without improvement
  and the epoch whose weights are the snapshot (\<open>None\<close> while no snapshot was taken).
  These are the branches of the check "Early Stopping \& Checkpoint", without the
  world.
\<close>

fun replay_rev :: "real list \<Rightarrow> real \<times> nat \<times> nat option" where
  "replay_rev [] = (0, 0, None)"
| "replay_rev (d # earlier) =
     (case replay_rev earlier of (best, ni, be) \<Rightarrow>
        if d > best then (d, 0, Some (length earlier)) else (best, ni + 1, be))"

definition replay :: "real list \<Rightarrow> real \<times> nat \<times> nat option" where
  "replay ds = replay_rev (rev ds)"

text \<open>The validation scores that a list of validation records holds.\<close>

definition dice_scores :: "epoch_record list \<Rightarrow> real list" where
  "dice_scores ms = map GeneralizedDice ms"

section \<open>A scripted run\<close>

text \<open>
  An instance of the torch parameters on which the training loop can be run: a batch
  is its own loss, the weights are a counter that every training batch advances, and
  the metrics computed when the counter stands at \<open>n\<close> are the \<open>n\<close>-th entry of a given
  list of scores (0 outside the list). With one training batch per epoch the validation
  score of epoch \<open>e\<close> is \<open>scores ! e\<close>, and the weights after epoch \<open>e\<close> are \<open>e + 1\<close>.
\<close>

definition scripted_torch :: "real list \<Rightarrow> (real, nat, unit) torch" where
  "scripted_torch scores =
     \<lparr>batch_step = (\<lambda>ph b w. (b, case ph of Train \<Rightarrow> w\<lparr>model_state := model_state w + 1\<rparr> | Val \<Rightarrow> w)),
      compute_metrics = (\<lambda>ph w.
         let d = (if 0 < model_state w \<and> model_state w \<le> length scores
                  then scores ! (model_state w - 1) else 0)
         in \<lparr>GeneralizedDice = d, IoU = d, Precision = d, Recall = d, F1 = d\<rparr>),
      scheduler_step = (\<lambda>val_loss w. w),
      reset_metrics = (\<lambda>w. w),
      epoch_seconds = (\<lambda>e. 1)\<rparr>"

definition fresh_world :: "(nat, unit) world" where
  "fresh_world = \<lparr>model_state = 0, rest = ()\<rparr>"

section \<open>A corpus of 100 tile pairs\<close>


section \<open>A dataset of one tile\<close>

text \<open>One image and one mask file, each read as a raster of one band with the single
  pixel \<open>v\<close>.\<close>

definition one_pixel_file :: "nat \<Rightarrow> string \<Rightarrow> nat ndarray" where
  "one_pixel_file v path = \<lparr>shape = [1, 1, 1], elems = [v]\<rparr>"

definition one_tile :: dataset where
  "one_tile = \<lparr>img_files = [''images/t_000.tif''], mask_files = [''labels/t_000.tif''], transform = None\<rparr>"

text \<open>The record of an epoch of a scripted run with the score \<open>d\<close> (one batch of loss 1),
  and a list of scores that improve for three epochs and then do not for seven.\<close>

definition scripted_record :: "real \<Rightarrow> epoch_record" where
  "scripted_record d =
     \<lparr>GeneralizedDice = d, IoU = d, Precision = d, Recall = d, F1 = d, loss = 1\<rparr>"

definition plateau_scores :: "real list" where
  "plateau_scores =
     [1 / 10, 2 / 10, 3 / 10, 3 / 10, 3 / 10, 2 / 10, 1 / 10, 3 / 10, 3 / 10, 3 / 10, 9 / 10]"

section \<open>Tiling: proofs\<close>

lemma full_window:
  assumes "i < w div tile_size"
  shows "min tile_size (w - i * tile_size) = tile_size"
proof -
  have "Suc i * tile_size \<le> (w div tile_size) * tile_size"
    using assms by (intro mult_le_mono1) simp
  also have "\<dots> \<le> w" by simp
  finally show ?thesis by simp
qed

lemma tile_body_full:
  assumes "width p = width s" "height p = height s"
    and "i < width s div tile_size" "j < height s div tile_size"
  shows "tile_body s p prefix j i (written, c) =
           (written @ [\<lparr>tile_name = prefix @ ''_'' @ format_03d c @ ''.tif'',
                        tile_x_off = i * tile_size, tile_y_off = j * tile_size,
                        sentinel_tile = [band_count s, tile_size, tile_size],
                        prodes_tile = [band_count p, tile_size, tile_size]\<rparr>], Suc c)"
  using assms full_window [of i "width s"] full_window [of j "height s"]
  by (simp add: tile_body_def read_shape_def Let_def)

lemma tile_row:
  assumes "width p = width s" "height p = height s"
    and "j < height s div tile_size" "n \<le> width s div tile_size"
  shows "fold (tile_body s p prefix j) [0..<n] (written, c) =
           (written @ map (\<lambda>i. \<lparr>tile_name = prefix @ ''_'' @ format_03d (c + i) @ ''.tif'',
                        tile_x_off = i * tile_size, tile_y_off = j * tile_size,
                        sentinel_tile = [band_count s, tile_size, tile_size],
                        prodes_tile = [band_count p, tile_size, tile_size]\<rparr>) [0..<n], c + n)"
  using assms(4)
proof (induction n)
  case 0
  then show ?case by simp
next
  case (Suc n)
  then show ?case
    using tile_body_full [OF assms(1,2) _ assms(3), of n] by simp
qed

lemma row_as_grid:
  assumes "j < height s div tile_size"
  shows "map (\<lambda>i. \<lparr>tile_name = prefix @ ''_'' @ format_03d (j * (width s div tile_size) + i) @ ''.tif'',
                        tile_x_off = i * tile_size, tile_y_off = j * tile_size,
                        sentinel_tile = [band_count s, tile_size, tile_size],
                        prodes_tile = [band_count p, tile_size, tile_size]\<rparr>) [0..<width s div tile_size]
         = map (grid_tile s p prefix)
             [j * (width s div tile_size)..<Suc j * (width s div tile_size)]"
proof -
  let ?tx = "width s div tile_size"
  have "[j * ?tx..<Suc j * ?tx] = map (\<lambda>i. i + j * ?tx) [0..<?tx]"
    by (simp add: map_add_upt add.commute)
  then show ?thesis
    by (simp add: grid_tile_def Let_def comp_def add.commute)
qed

lemma tile_rows:
  assumes "width p = width s" "height p = height s"
    and "m \<le> height s div tile_size"
  shows "fold (\<lambda>j. fold (tile_body s p prefix j) [0..<width s div tile_size]) [0..<m] ([], 0) =
           (map (grid_tile s p prefix) [0..<m * (width s div tile_size)],
            m * (width s div tile_size))"
  using assms(3)
proof (induction m)
  case 0
  then show ?case by simp
next
  case (Suc m)
  let ?tx = "width s div tile_size"
  let ?g = "grid_tile s p prefix"
  have split: "[0..<Suc m * ?tx] = [0..<m * ?tx] @ [m * ?tx..<Suc m * ?tx]"
    using upt_add_eq_append [of 0 "m * ?tx" ?tx] by (simp add: add.commute)
  from Suc have m: "m < height s div tile_size" by simp
  have "fold (\<lambda>j. fold (tile_body s p prefix j) [0..<?tx]) [0..<Suc m] ([], 0) =
          fold (tile_body s p prefix m) [0..<?tx] (map ?g [0..<m * ?tx], m * ?tx)"
    using Suc by simp
  also have "\<dots> = (map ?g [0..<m * ?tx] @ map ?g [m * ?tx..<Suc m * ?tx], m * ?tx + ?tx)"
    unfolding tile_row [OF assms(1,2) m order_refl] row_as_grid [OF m] ..
  also have "\<dots> = (map ?g [0..<Suc m * ?tx], Suc m * ?tx)"
    unfolding split by (simp add: add.commute)
  finally show ?case .
qed

text \<open>
  Claim C2. For an aligned raster pair (the label raster has the width and height of
  the image raster) \<^verbatim>\<open>tile_datasets\<close> writes exactly \<open>(W div 512) * (H div 512)\<close> tile pairs;
  the tile with number \<open>n\<close>, counted from 0 in the order of writing, carries \<open>n\<close> in its
  name and is read at the offsets \<open>((n mod tiles_x) * 512, (n div tiles_x) * 512)\<close>, which
  is the row-major order of the grid; its window lies inside the raster, and the image
  and the label array are both 512 by 512.
\<close>

theorem tile_datasets_grid:
  assumes "width p = width s" and "height p = height s"
  shows "tile_datasets s p prefix =
           map (grid_tile s p prefix) [0..<(height s div 512) * (width s div 512)]
       \<and> length (tile_datasets s p prefix) = (width s div 512) * (height s div 512)
       \<and> (\<forall>n < length (tile_datasets s p prefix).
            tile_name (tile_datasets s p prefix ! n) = prefix @ ''_'' @ format_03d n @ ''.tif''
          \<and> tile_x_off (tile_datasets s p prefix ! n) = (n mod (width s div 512)) * 512
          \<and> tile_y_off (tile_datasets s p prefix ! n) = (n div (width s div 512)) * 512
          \<and> tile_x_off (tile_datasets s p prefix ! n) + 512 \<le> width s
          \<and> tile_y_off (tile_datasets s p prefix ! n) + 512 \<le> height s
          \<and> sentinel_tile (tile_datasets s p prefix ! n) = [band_count s, 512, 512]
          \<and> prodes_tile (tile_datasets s p prefix ! n) = [band_count p, 512, 512])"
proof -
  let ?tx = "width s div 512" and ?ty = "height s div 512"
  let ?ts = "tile_datasets s p prefix"
  have eq: "?ts = map (grid_tile s p prefix) [0..<?ty * ?tx]"
    using tile_rows [OF assms order_refl, of prefix]
    by (simp add: tile_datasets_def Let_def tile_size_def)
  have len: "length ?ts = ?tx * ?ty"
    by (simp add: eq mult.commute)
  have each: "tile_name (?ts ! n) = prefix @ ''_'' @ format_03d n @ ''.tif''
          \<and> tile_x_off (?ts ! n) = (n mod ?tx) * 512
          \<and> tile_y_off (?ts ! n) = (n div ?tx) * 512
          \<and> tile_x_off (?ts ! n) + 512 \<le> width s
          \<and> tile_y_off (?ts ! n) + 512 \<le> height s
          \<and> sentinel_tile (?ts ! n) = [band_count s, 512, 512]
          \<and> prodes_tile (?ts ! n) = [band_count p, 512, 512]" if n: "n < length ?ts" for n
  proof -
    from n len have n': "n < ?ty * ?tx" by (simp add: mult.commute)
    then have tx: "0 < ?tx" by (cases "?tx = 0") auto
    have nth: "?ts ! n = grid_tile s p prefix n"
      using n' by (simp add: eq)
    have "n mod ?tx < ?tx" using tx by simp
    then have "Suc (n mod ?tx) * 512 \<le> ?tx * 512" by (intro mult_le_mono1) simp
    also have "\<dots> \<le> width s" by simp
    finally have x: "(n mod ?tx) * 512 + 512 \<le> width s" by simp
    have "n div ?tx < ?ty" using n' tx by (simp add: less_mult_imp_div_less)
    then have "Suc (n div ?tx) * 512 \<le> ?ty * 512" by (intro mult_le_mono1) simp
    also have "\<dots> \<le> height s" by simp
    finally have y: "(n div ?tx) * 512 + 512 \<le> height s" by simp
    show ?thesis
      using x y by (simp add: nth grid_tile_def Let_def tile_size_def)
  qed
  from eq len each show ?thesis by blast
qed

theorem tile_datasets_grid_witness:
  "width \<lparr>width = 1100, height = 1600, band_count = 1\<rparr> = width \<lparr>width = 1100, height = 1600, band_count = 4\<rparr>
   \<and> height \<lparr>width = 1100, height = 1600, band_count = 1\<rparr> = height \<lparr>width = 1100, height = 1600, band_count = 4\<rparr>
   \<and> length (tile_datasets \<lparr>width = 1100, height = 1600, band_count = 4\<rparr>
               \<lparr>width = 1100, height = 1600, band_count = 1\<rparr> ''T'') = 6
   \<and> tile_x_off (tile_datasets \<lparr>width = 1100, height = 1600, band_count = 4\<rparr>
               \<lparr>width = 1100, height = 1600, band_count = 1\<rparr> ''T'' ! 3) = 512
   \<and> tile_y_off (tile_datasets \<lparr>width = 1100, height = 1600, band_count = 4\<rparr>
               \<lparr>width = 1100, height = 1600, band_count = 1\<rparr> ''T'' ! 3) = 512"
  using tile_datasets_grid [of "\<lparr>width = 1100, height = 1600, band_count = 1\<rparr>"
      "\<lparr>width = 1100, height = 1600, band_count = 4\<rparr>" "''T''"]
  by (simp add: grid_tile_def Let_def tile_size_def)

section \<open>Binarization: proofs\<close>

lemma binary_mask_pixelwise:
  "binary_mask (binary_mask img v) v = binary_mask img v \<longleftrightarrow>
     (\<forall>p \<in> set (concat img). (if (if p = v then 255 else 0) = v then 255 else 0) = (if p = v then (255::int) else 0))"
  by (auto simp: binary_mask_def)

lemma binary_mask_twice_iff:
  "binary_mask (binary_mask img v) v = binary_mask img v \<longleftrightarrow>
     v = 255 \<or> concat img = [] \<or> (v \<noteq> 0 \<and> v \<notin> set (concat img))"
proof (cases "v = 255")
  case True
  then show ?thesis unfolding binary_mask_pixelwise by auto
next
  case v255: False
  show ?thesis
  proof (cases "v = 0")
    case True
    have "(\<forall>p \<in> set (concat img). False) \<longleftrightarrow> concat img = []"
      by (cases "concat img") auto
    moreover have "(if (if p = v then 255 else 0) = v then 255 else 0) \<noteq> (if p = v then (255::int) else 0)" for p
      using True by auto
    ultimately show ?thesis unfolding binary_mask_pixelwise using True by auto
  next
    case False
    then show ?thesis unfolding binary_mask_pixelwise using v255
      by (cases "concat img") auto
  qed
qed

text \<open>
  Claim C5, as the code has it. Running \<^verbatim>\<open>convert_forest_to_binary\<close> on a raster and then
  again on its output, with the same foreground value \<open>v\<close>, gives the output of the
  first run exactly when \<open>v = 255\<close>, or the raster has no pixel, or \<open>v \<noteq> 0\<close> and no pixel
  has the value \<open>v\<close>. So binarization is idempotent for the foreground value 255, the
  code that the mask itself uses for foreground, and for no other value once a pixel
  is foreground.
\<close>

theorem convert_forest_to_binary_twice:
  assumes "files input_tiff = Some img"
  shows "\<exists>once twice.
           convert_forest_to_binary files input_tiff out1 v = Inr once
         \<and> convert_forest_to_binary once out1 out2 v = Inr twice
         \<and> once out1 = Some (binary_mask img v)
         \<and> twice out2 = Some (binary_mask (binary_mask img v) v)
         \<and> (twice out2 = once out1 \<longleftrightarrow>
              v = 255 \<or> concat img = [] \<or> (v \<noteq> 0 \<and> v \<notin> set (concat img)))"
  using assms binary_mask_twice_iff [of img v]
  by (simp add: convert_forest_to_binary_def)

theorem convert_forest_to_binary_twice_witness:
  "[''a.tif'' \<mapsto> [[0, 255], [7, 255::int]]] ''a.tif'' = Some [[0, 255], [7, 255]]
   \<and> (\<exists>once twice.
           convert_forest_to_binary [''a.tif'' \<mapsto> [[0, 255], [7, 255]]] ''a.tif'' ''b.tif'' 255 = Inr once
         \<and> convert_forest_to_binary once ''b.tif'' ''c.tif'' 255 = Inr twice
         \<and> once ''b.tif'' = Some [[0, 255], [0, 255]]
         \<and> twice ''c.tif'' = once ''b.tif'')"
proof -
  have h: "[''a.tif'' \<mapsto> [[0, 255], [7, 255::int]]] ''a.tif'' = Some [[0, 255], [7, 255]]"
    by simp
  from h convert_forest_to_binary_twice
      [of "[''a.tif'' \<mapsto> [[0, 255], [7, 255]]]" "''a.tif''" "[[0, 255], [7, 255]]" "''b.tif''" 255 "''c.tif''"]
  show ?thesis by (auto simp: binary_mask_def)
qed

text \<open>
  With the foreground value 100 a raster with the values 0, 100, 200 becomes
  0, 255, 0, and a second run turns that into 0, 0, 0.
\<close>

theorem binarize_twice_counterexample:
  "convert_forest_to_binary [''a.tif'' \<mapsto> [[0, 100, 200]]] ''a.tif'' ''b.tif'' 100
     = Inr [''a.tif'' \<mapsto> [[0, 100, 200]], ''b.tif'' \<mapsto> [[0, 255, 0]]]
   \<and> convert_forest_to_binary [''a.tif'' \<mapsto> [[0, 100, 200]], ''b.tif'' \<mapsto> [[0, 255, 0]]] ''b.tif'' ''c.tif'' 100
     = Inr [''a.tif'' \<mapsto> [[0, 100, 200]], ''b.tif'' \<mapsto> [[0, 255, 0]], ''c.tif'' \<mapsto> [[0, 0, 0]]]
   \<and> [[0, 0, 0]] \<noteq> [[0, 255, 0::int]]"
  by (simp add: convert_forest_to_binary_def binary_mask_def)

section \<open>run\_epoch: proofs\<close>

text \<open>
  Claim C9. On a loader without batches \<^verbatim>\<open>run_epoch\<close> raises ZeroDivisionError, from
  \<^verbatim>\<open>loss_total / len(loader)\<close>; on a loader with at least one batch it returns, with the
  sum of the batch losses divided by the number of batches and the metrics computed on
  the world that the batches left.
\<close>

theorem run_epoch_empty_loader:
  "run_epoch T [] ph w = Inl ZeroDivisionError
   \<and> (loader \<noteq> [] \<longrightarrow>
        run_epoch T loader ph w =
          Inr ((fst (run_batches T ph loader (0, w)) / real (length loader),
                compute_metrics T ph (snd (run_batches T ph loader (0, w)))),
               snd (run_batches T ph loader (0, w))))"
  by (simp add: run_epoch_def Let_def split: prod.splits)

theorem run_epoch_empty_loader_witness:
  "[2, 4] \<noteq> ([] :: real list)
   \<and> run_epoch (scripted_torch [1 / 2]) [] Train fresh_world = Inl ZeroDivisionError
   \<and> run_epoch (scripted_torch [1 / 2]) [2, 4] Train fresh_world =
       Inr ((3, \<lparr>GeneralizedDice = 0, IoU = 0, Precision = 0, Recall = 0, F1 = 0\<rparr>),
            \<lparr>model_state = 2, rest = ()\<rparr>)"
  using run_epoch_empty_loader [of "scripted_torch [1 / 2]" Train fresh_world "[2, 4]"]
  by (simp add: scripted_torch_def fresh_world_def)

section \<open>Locating the band files: proofs\<close>

lemma match_band_Some:
  "match_band f bs = Some b \<Longrightarrow> b \<in> set bs \<and> endswith f (band_suffix b)"
  by (induction bs) (auto split: if_splits)

lemma locate_keys:
  "fst ` set (fold (locate_step folder) listing acc)
     \<subseteq> fst ` set acc \<union> {b. \<exists>f \<in> set listing. match_band f bands = Some b}"
proof (induction listing arbitrary: acc)
  case Nil
  then show ?case by simp
next
  case (Cons f fs)
  have "fst ` set (locate_step folder f acc) \<subseteq> fst ` set acc \<union> {b. match_band f bands = Some b}"
    by (auto simp: locate_step_def dom_update split: option.splits)
  with Cons [of "locate_step folder f acc"] show ?case by auto
qed

lemma locate_distinct:
  "distinct (map fst acc) \<Longrightarrow> distinct (map fst (fold (locate_step folder) listing acc))"
  by (induction listing arbitrary: acc)
     (auto simp: locate_step_def distinct_update split: option.splits)

lemma locate_bands_short:
  assumes "b \<in> set bands" and "\<forall>f \<in> set listing. \<not> endswith f (band_suffix b)"
  shows "length (locate_bands folder listing) < 4"
proof -
  let ?al = "locate_bands folder listing"
  have keys: "fst ` set ?al \<subseteq> set bands - {b}"
    using locate_keys [of folder listing "[]"] assms(2)
    by (auto simp: locate_bands_def dest: match_band_Some)
  have "distinct (map fst ?al)"
    using locate_distinct [of "[]"] by (simp add: locate_bands_def)
  then have "length ?al = card (fst ` set ?al)"
    using distinct_card [of "map fst ?al"] by simp
  also have "\<dots> \<le> card (set bands - {b})"
    using keys by (intro card_mono) auto
  also have "\<dots> < card (set bands)"
    using assms(1) by (intro psubset_card_mono) auto
  also have "card (set bands) = 4"
    by (simp add: bands_def)
  finally show ?thesis .
qed

lemma locate_fast_None:
  assumes "\<forall>f \<in> set listing. match_band f bands \<noteq> Some b" and "map_of acc b = Some None"
  shows "map_of (fold (locate_step_fast folder) listing acc) b = Some None"
  using assms
proof (induction listing arbitrary: acc)
  case Nil
  then show ?case by simp
next
  case (Cons f fs)
  from Cons.prems have "map_of (locate_step_fast folder f acc) b = Some None"
    by (auto simp: locate_step_fast_def update_conv' split: option.splits)
  with Cons show ?case by simp
qed

lemma locate_bands_fast_missing:
  assumes "b \<in> set bands" and "\<forall>f \<in> set listing. \<not> endswith f (band_suffix b)"
  shows "list_ex (\<lambda>v. v = None) (map snd (locate_bands_fast folder listing))"
proof -
  have "map_of (map (\<lambda>band. (band, None :: string option)) bands) b = Some None"
    using assms(1) by (simp add: map_of_map_restrict)
  then have "map_of (locate_bands_fast folder listing) b = Some None"
    unfolding locate_bands_fast_def
    using assms(2) by (intro locate_fast_None) (auto dest: match_band_Some)
  then have "(b, None) \<in> set (locate_bands_fast folder listing)"
    by (rule map_of_SomeD)
  then show ?thesis
    by (force simp: list_ex_iff)
qed

text \<open>
  Claim C7. When some expected band (B02, B03, B04, B08) has no file in the folder whose
  name ends with its pattern, both \<^verbatim>\<open>process_sentinel\<close> and \<^verbatim>\<open>process_sentinel_fast\<close> raise, and
  they have written no file by then. The exception is Python's ValueError, with the
  message of the respective function.
\<close>

theorem missing_band_raises:
  assumes "\<exists>band \<in> set bands. \<forall>f \<in> set listing. \<not> endswith f (band_suffix band)"
  shows "process_sentinel reproject nan_u8 listing input_folder output_path
           = ([], Inl (ValueError ''Missing one or more Sentinel-2 band files.''))
       \<and> process_sentinel_fast read_band listing input_folder output_path
           = ([], Inl (ValueError ''One or more required band files are missing.''))"
proof -
  from assms obtain b where b: "b \<in> set bands" "\<forall>f \<in> set listing. \<not> endswith f (band_suffix b)"
    by blast
  show ?thesis
    using locate_bands_short [OF b, of input_folder] locate_bands_fast_missing [OF b, of input_folder]
    by (simp add: process_sentinel_def process_sentinel_fast_def Let_def)
qed

theorem missing_band_raises_witness:
  "(\<exists>band \<in> set bands. \<forall>f \<in> set [''T21LYG_20230801T135709_B02_10m.jp2'',
        ''T21LYG_20230801T135709_B03_10m.jp2'', ''T21LYG_20230801T135709_B04_10m.jp2''].
        \<not> endswith f (band_suffix band))
   \<and> process_sentinel (\<lambda>path. [[Fl 1, Fl 2]]) 0 [''T21LYG_20230801T135709_B02_10m.jp2'',
        ''T21LYG_20230801T135709_B03_10m.jp2'', ''T21LYG_20230801T135709_B04_10m.jp2'']
        ''/SENTINEL_IMAGES/a'' ''/SENTINEL_OUTPUT/a/a.tif''
       = ([], Inl (ValueError ''Missing one or more Sentinel-2 band files.''))
   \<and> process_sentinel_fast (\<lambda>path. path) [''T21LYG_20230801T135709_B02_10m.jp2'',
        ''T21LYG_20230801T135709_B03_10m.jp2'', ''T21LYG_20230801T135709_B04_10m.jp2'']
        ''/SENTINEL_IMAGES/a'' ''/SENTINEL_OUTPUT/a/a.tif''
       = ([], Inl (ValueError ''One or more required band files are missing.''))"
proof -
  have h: "\<exists>band \<in> set bands. \<forall>f \<in> set [''T21LYG_20230801T135709_B02_10m.jp2'',
        ''T21LYG_20230801T135709_B03_10m.jp2'', ''T21LYG_20230801T135709_B04_10m.jp2''].
        \<not> endswith f (band_suffix band)"
    by (simp add: bands_def endswith_def band_suffix_def)
  from h missing_band_raises [OF h, of "\<lambda>path. [[Fl 1, Fl 2]]" 0 _ _ "\<lambda>path. path"] show ?thesis by blast
qed

text \<open>A folder with all four bands is read and written, whatever else it holds and in
  whatever order it is listed.\<close>

lemma complete_folder_is_written:
  "process_sentinel_fast read_band [''T_20230801_B08_10m.jp2'', ''T_20230801_B02_10m.jp2'',
        ''notes.txt'', ''T_20230801_B04_10m.jp2'', ''T_20230801_B03_10m.jp2''] ''in'' ''out.tif''
     = ([\<lparr>gtiff_path = ''out.tif'',
          gtiff_bands = [read_band ''in/T_20230801_B02_10m.jp2'', read_band ''in/T_20230801_B03_10m.jp2'',
                         read_band ''in/T_20230801_B04_10m.jp2'', read_band ''in/T_20230801_B08_10m.jp2'']\<rparr>],
        Inr ())"
  by (simp add: process_sentinel_fast_def locate_bands_fast_def locate_step_fast_def bands_def
      endswith_def band_suffix_def path_join_def getitem_def Let_def)

section \<open>Scaling a band: proofs\<close>










section \<open>Splitting the dataset: proofs\<close>







section \<open>DiceBCELoss: proofs\<close>

lemma sigmoid_0: "sigmoid 0 = 1 / 2"
  by (simp add: sigmoid_def)

lemma sigmoid_pos: "0 < sigmoid x"
  by (simp add: sigmoid_def add_pos_pos)

lemma sum_list_sigmoid_nonneg: "0 \<le> sum_list (map sigmoid preds)"
  by (induction preds) (auto simp: less_imp_le [OF sigmoid_pos] intro: add_nonneg_nonneg)

lemma sum_list_replicate_real: "sum_list (replicate n (c::real)) = real n * c"
  by (induction n) (simp_all add: algebra_simps)

lemma bce_zeros:
  assumes "0 < n"
  shows "bce_with_logits (replicate n 0) (replicate n 0) = ln 2"
proof -
  have z: "zip (replicate n (0::real)) (replicate n (0::real)) = replicate n (0, 0)"
    by (induction n) simp_all
  have "ln (1 / 2 :: real) = - ln 2"
    by (simp add: ln_div)
  then have "bce_with_logits (replicate n 0) (replicate n 0) = real n * ln 2 / real n"
    by (simp add: bce_with_logits_def z sigmoid_0 sum_list_replicate_real)
  then show ?thesis using assms by simp
qed

lemma ln2_lower: "1 / 2 \<le> ln (2::real)"
proof -
  have "ln (1 - 1 / 2 :: real) \<le> - (1 / 2)"
    by (rule ln_one_minus_pos_upper_bound) simp_all
  moreover have "ln (1 - 1 / 2 :: real) = - ln 2"
    by (simp add: ln_div)
  ultimately show ?thesis by simp
qed

text \<open>
  Claim C6, as the code has it. On a batch of \<open>n > 0\<close> logits that are all zero, with
  targets that are all zero, every sigmoid is 1/2, so the intersection is 0, the sum of
  the predictions is \<open>n / 2\<close> and the denominator of the Dice term is at least 1: nothing
  divides by zero. The loss is \<open>w_bce * ln 2 + w_dice * (1 - 1 / (n / 2 + 1))\<close>; with the
  default weights 1/2 and 1/2 it lies between 2/5 and 1, so it is finite but not close
  to 0.
\<close>

theorem dice_bce_zeros:
  assumes "0 < n"
  shows "forward self (replicate n 0) (replicate n 0)
           = weight_bce self * ln 2 + weight_dice self * (1 - (2 * 0 + 1) / (real n / 2 + 0 + 1))
       \<and> 1 \<le> real n / 2 + 0 + 1
       \<and> 2 / 5 < forward \<lparr>weight_bce = 1 / 2, weight_dice = 1 / 2\<rparr> (replicate n 0) (replicate n 0)
       \<and> forward \<lparr>weight_bce = 1 / 2, weight_dice = 1 / 2\<rparr> (replicate n 0) (replicate n 0) < 1"
proof -
  have z: "zip (replicate n (1 / 2 :: real)) (replicate n (0::real)) = replicate n (1 / 2, 0)"
    by (induction n) simp_all
  have eq: "forward s (replicate n 0) (replicate n 0)
           = weight_bce s * ln 2 + weight_dice s * (1 - (2 * 0 + 1) / (real n / 2 + 0 + 1))" for s
    using bce_zeros [OF assms]
    by (simp add: forward_def Let_def sigmoid_0 z sum_list_replicate_real)
  define d where "d = 1 / (real n / 2 + 1)"
  have n1: "1 \<le> real n" using assms by simp
  then have d: "d \<le> 2 / 3" "0 < d"
    by (simp_all add: d_def divide_le_eq)
  have half: "forward \<lparr>weight_bce = 1 / 2, weight_dice = 1 / 2\<rparr> (replicate n 0) (replicate n 0)
           = ln 2 / 2 + (1 - d) / 2"
    by (simp add: eq d_def)
  have arith: "2 / 5 < l / 2 + (1 - d) / 2 \<and> l / 2 + (1 - d) / 2 < 1"
    if "l < 1" "1 / 2 \<le> l" for l :: real
    using that d by argo
  have bounds: "2 / 5 < ln 2 / 2 + (1 - d) / 2 \<and> ln 2 / 2 + (1 - d) / 2 < 1"
    by (rule arith [OF ln_2_less_1 ln2_lower])
  show ?thesis
    using eq [of self] bounds n1 unfolding half by simp
qed

theorem dice_bce_zeros_witness:
  "(0::nat) < 4
   \<and> forward \<lparr>weight_bce = 1 / 2, weight_dice = 1 / 2\<rparr> (replicate 4 0) (replicate 4 0)
        = ln 2 / 2 + 1 / 3"
  using dice_bce_zeros [of 4 "\<lparr>weight_bce = 1 / 2, weight_dice = 1 / 2\<rparr>"]
  by simp

text \<open>A batch of four zero logits with four zero targets has the loss
  \<open>ln 2 / 2 + 1 / 3\<close>, about 0.68.\<close>

theorem dice_bce_zeros_counterexample:
  "forward \<lparr>weight_bce = 1 / 2, weight_dice = 1 / 2\<rparr> [0, 0, 0, 0] [0, 0, 0, 0] = ln 2 / 2 + 1 / 3
   \<and> 1 / 2 < forward \<lparr>weight_bce = 1 / 2, weight_dice = 1 / 2\<rparr> [0, 0, 0, 0] [0, 0, 0, 0]"
proof -
  have "ln (1 / 2 :: real) = - ln 2"
    by (simp add: ln_div)
  then have "forward \<lparr>weight_bce = 1 / 2, weight_dice = 1 / 2\<rparr> [0, 0, 0, 0] [0, 0, 0, 0] = ln 2 / 2 + 1 / 3"
    by (simp add: forward_def bce_with_logits_def Let_def sigmoid_0)
  then show ?thesis using ln2_lower by simp
qed

section \<open>Dataset samples: proofs\<close>

lemma chw_index_bound:
  assumes "k < c" "y < h" "x < (w::nat)"
  shows "(k * h + y) * w + x < c * h * w"
proof -
  have "(k * h + y) * w + x < (k * h + y) * w + w" using assms(3) by simp
  also have "\<dots> = (k * h + Suc y) * w" by (simp add: algebra_simps)
  also have "\<dots> \<le> (k * h + h) * w" using assms(2) by (intro mult_le_mono1) simp
  also have "\<dots> = Suc k * h * w" by (simp add: algebra_simps)
  also have "\<dots> \<le> c * h * w" using assms(1) by (intro mult_le_mono1) simp
  finally show ?thesis .
qed

lemma hwc_elems_cong:
  assumes "\<And>i. i < c * h * w \<Longrightarrow> f i = g i"
  shows "hwc_elems c h w f = hwc_elems c h w g"
  unfolding hwc_elems_def
  by (intro arg_cong [where f = concat] map_cong refl assms chw_index_bound) simp_all

lemma hwc_elems_set:
  "u \<in> set (hwc_elems c h w f) \<Longrightarrow> \<exists>i < c * h * w. u = f i"
proof -
  assume "u \<in> set (hwc_elems c h w f)"
  then obtain y x k where "y < h" "x < w" "k < c" and u: "u = f ((k * h + y) * w + x)"
    unfolding hwc_elems_def by auto
  then have "(k * h + y) * w + x < c * h * w"
    by (intro chw_index_bound)
  with u show ?thesis by blast
qed

lemma transpose_120_chw:
  "shape a = [c, h, w] \<Longrightarrow>
     transpose_120 a = Inr \<lparr>shape = [h, w, c], elems = hwc_elems c h w (\<lambda>i. elems a ! i)\<rparr>"
  by (simp add: transpose_120_def hwc_elems_def)

text \<open>
  Claim C10, as the code has it. For an image file of shape (C, H, W) and a mask file
  of shape (C', H', W') with a first band: without a transform \<^verbatim>\<open>__getitem__\<close> returns
  the image in the layout (H, W, C), every value the stored pixel divided by 255, and
  the mask as the two-dimensional array (H', W') of 0 and 1; nothing is unsqueezed and
  nothing is made channel-first. With a transform it returns the transformed image and
  the transformed mask with a leading dimension 1. The image values lie in [0, 1] when
  the stored pixels are at most 255.
\<close>

theorem getitem_sample_shapes:
  assumes "idx < length (img_files self)" and "idx < length (mask_files self)"
    and "shape (read_file (img_files self ! idx)) = [c, h, w]"
    and "length (elems (read_file (img_files self ! idx))) = c * h * w"
    and "shape (read_file (mask_files self ! idx)) = [c', h', w']" and "0 < c'"
  shows "\<exists>img mask.
           dataset_getitem read_file (self\<lparr>transform := None\<rparr>) idx = Inr (img, mask)
         \<and> shape img = [h, w, c]
         \<and> elems img = hwc_elems c h w (\<lambda>i. real (elems (read_file (img_files self ! idx)) ! i) / 255)
         \<and> shape mask = [h', w']
         \<and> elems mask = map (\<lambda>v. if v > 0 then 1 else 0)
                           (take (h' * w') (elems (read_file (mask_files self ! idx))))
         \<and> ((\<forall>v \<in> set (elems (read_file (img_files self ! idx))). v \<le> 255)
              \<longrightarrow> (\<forall>u \<in> set (elems img). 0 \<le> u \<and> u \<le> 1))
         \<and> (\<forall>tr. dataset_getitem read_file (self\<lparr>transform := Some tr\<rparr>) idx
                     = Inr (fst (tr img mask), unsqueeze0 (snd (tr img mask)))
                 \<and> shape (unsqueeze0 (snd (tr img mask))) = 1 # shape (snd (tr img mask)))"
proof -
  let ?raw = "read_file (img_files self ! idx)"
  let ?rawmask = "read_file (mask_files self ! idx)"
  let ?img = "\<lparr>shape = [h, w, c], elems = hwc_elems c h w (\<lambda>i. real (elems ?raw ! i) / 255)\<rparr>"
  let ?mask = "\<lparr>shape = [h', w'], elems = map (\<lambda>v. if v > 0 then 1 else 0) (take (h' * w') (elems ?rawmask))\<rparr> :: nat ndarray"
  have band: "read_band1 ?rawmask = Inr \<lparr>shape = [h', w'], elems = take (h' * w') (elems ?rawmask)\<rparr>"
    using assms(5,6) by (simp add: read_band1_def)
  have "hwc_elems c h w (\<lambda>i. map (\<lambda>v. real v / 255) (elems ?raw) ! i)
          = hwc_elems c h w (\<lambda>i. real (elems ?raw ! i) / 255)"
    using assms(4) by (intro hwc_elems_cong) simp
  then have tr: "transpose_120 \<lparr>shape = shape ?raw, elems = map (\<lambda>v. real v / 255) (elems ?raw)\<rparr> = Inr ?img"
    using assms(3) by (simp add: transpose_120_chw)
  have none: "dataset_getitem read_file (self\<lparr>transform := None\<rparr>) idx = Inr (?img, ?mask)"
    using assms(1,2) band tr by (simp add: dataset_getitem_def Let_def)
  have some: "dataset_getitem read_file (self\<lparr>transform := Some t\<rparr>) idx
                = Inr (fst (t ?img ?mask), unsqueeze0 (snd (t ?img ?mask)))" for t
    using assms(1,2) band tr by (simp add: dataset_getitem_def Let_def)
  have range: "0 \<le> u \<and> u \<le> 1"
    if small: "\<forall>v \<in> set (elems ?raw). v \<le> 255" and u: "u \<in> set (elems ?img)" for u
  proof -
    from u have "\<exists>i < c * h * w. u = real (elems ?raw ! i) / 255"
      by (intro hwc_elems_set) simp
    then obtain i where i: "i < c * h * w" "u = real (elems ?raw ! i) / 255"
      by blast
    with assms(4) small have "elems ?raw ! i \<le> 255" by simp
    with i(2) show ?thesis by simp
  qed
  show ?thesis
    using none some range
    by (intro exI [of _ ?img] exI [of _ ?mask]) (simp add: unsqueeze0_def)
qed

theorem getitem_sample_shapes_witness:
  "(0::nat) < length (img_files one_tile) \<and> 0 < length (mask_files one_tile)
   \<and> shape (one_pixel_file 51 (img_files one_tile ! 0)) = [1, 1, 1]
   \<and> length (elems (one_pixel_file 51 (img_files one_tile ! 0))) = 1 * 1 * 1
   \<and> shape (one_pixel_file 51 (mask_files one_tile ! 0)) = [1, 1, 1] \<and> (0::nat) < 1
   \<and> dataset_getitem (one_pixel_file 51) (one_tile\<lparr>transform := None\<rparr>) 0
        = Inr (\<lparr>shape = [1, 1, 1], elems = [1 / 5]\<rparr>, \<lparr>shape = [1, 1], elems = [1]\<rparr>)
   \<and> dataset_getitem (one_pixel_file 51) (one_tile\<lparr>transform := Some (\<lambda>img mask. (img, mask))\<rparr>) 0
        = Inr (\<lparr>shape = [1, 1, 1], elems = [1 / 5]\<rparr>, \<lparr>shape = [1, 1, 1], elems = [1]\<rparr>)"
  using getitem_sample_shapes [of 0 one_tile "one_pixel_file 51" 1 1 1 1 1 1]
  by (auto simp: one_tile_def one_pixel_file_def hwc_elems_def unsqueeze0_def)

text \<open>A tile written with 16-bit pixels can hold 510, and the sample value is then 2.\<close>

theorem getitem_unit_range_counterexample:
  "dataset_getitem (one_pixel_file 510) one_tile 0
     = Inr (\<lparr>shape = [1, 1, 1], elems = [2]\<rparr>, \<lparr>shape = [1, 1], elems = [1]\<rparr>)"
  by (simp add: dataset_getitem_def one_tile_def one_pixel_file_def read_band1_def
      transpose_120_def Let_def)

section \<open>The training loop: proofs\<close>

subsection \<open>The control variables as a function of the scores\<close>

lemma replay_Nil: "replay [] = (0, 0, None)"
  by (simp add: replay_def)

lemma replay_snoc:
  "replay (ds @ [d]) =
     (case replay ds of (best, ni, be) \<Rightarrow>
        if d > best then (d, 0, Some (length ds)) else (best, ni + 1, be))"
  by (simp add: replay_def split: prod.splits)

lemma replay_facts:
  "case replay ds of (best, ni, be) \<Rightarrow>
     best = Max (insert 0 (set ds)) \<and> ni \<le> length ds
     \<and> (be = None \<longrightarrow> best = 0 \<and> (\<forall>d \<in> set ds. d \<le> 0))
     \<and> (\<forall>e. be = Some e \<longrightarrow> e < length ds \<and> ds ! e = best \<and> 0 < best \<and> (\<forall>j < e. ds ! j < best))"
proof (induction ds rule: rev_induct)
  case Nil
  then show ?case by (simp add: replay_Nil)
next
  case (snoc d ds)
  obtain best ni be where r: "replay ds = (best, ni, be)"
    by (cases "replay ds") auto
  from snoc r have best: "best = Max (insert 0 (set ds))" and ni: "ni \<le> length ds"
    and none: "be = None \<longrightarrow> best = 0 \<and> (\<forall>d \<in> set ds. d \<le> 0)"
    and some: "\<And>e. be = Some e \<Longrightarrow> e < length ds \<and> ds ! e = best \<and> 0 < best \<and> (\<forall>j < e. ds ! j < best)"
    by auto
  have le: "x \<le> best" if "x \<in> set ds" for x
    using that best by simp
  have b0: "0 \<le> best" using best by simp
  have bestM: "Max (insert 0 (set ds)) = best" using best by simp
  have "insert 0 (set (ds @ [d])) = insert d (insert 0 (set ds))"
    by auto
  then have mx: "Max (insert 0 (set (ds @ [d]))) = max d (Max (insert 0 (set ds)))"
    by (simp del: Max_insert add: Max_insert [of "insert 0 (set ds)" d])
  show ?case
  proof (cases "d > best")
    case True
    have m: "Max (insert 0 (set (ds @ [d]))) = d"
      unfolding mx bestM using True by simp
    have "(ds @ [d]) ! j < d" if "j < length ds" for j
      using le [of "ds ! j"] True that by (simp add: nth_append)
    then have "\<forall>j < length ds. (ds @ [d]) ! j < d"
      by blast
    then show ?thesis
      using True b0 r m by (simp add: replay_snoc)
  next
    case False
    have m: "Max (insert 0 (set (ds @ [d]))) = best"
      unfolding mx bestM using False by simp
    show ?thesis
      using False r m ni none some by (auto simp: replay_snoc nth_append)
  qed
qed

lemma replay_improving:
  "sorted_wrt (<) (0 # inc) \<Longrightarrow>
     replay inc = (last (0 # inc), 0, if inc = [] then None else Some (length inc - 1))"
proof (induction inc rule: rev_induct)
  case Nil
  then show ?case by (simp add: replay_Nil)
next
  case (snoc d inc)
  from snoc.prems have s: "sorted_wrt (<) (0 # inc)" and d: "\<forall>x \<in> set (0 # inc). x < d"
    by (auto simp: sorted_wrt_append)
  have "last (0 # inc) \<in> set (0 # inc)" by (rule last_in_set) simp
  with d have "last (0 # inc) < d" by blast
  then show ?case
    using snoc.IH [OF s] by (simp add: replay_snoc)
qed

lemma replay_plateau:
  assumes "replay inc = (best, 0, be)" and "\<forall>d \<in> set flat. d \<le> best"
  shows "replay (inc @ flat) = (best, length flat, be)"
  using assms(2)
proof (induction flat rule: rev_induct)
  case Nil
  then show ?case using assms(1) by simp
next
  case (snoc d flat)
  then have "replay (inc @ flat) = (best, length flat, be)" and "d \<le> best" by auto
  then show ?case
    using replay_snoc [of "inc @ flat" d] by simp
qed

lemma replay_pattern:
  assumes "k + n \<le> length ds" and "sorted_wrt (<) (0 # take k ds)"
    and "\<forall>i < n. ds ! (k + i) \<le> last (0 # take k ds)"
  shows "replay (take (k + n) ds)
           = (last (0 # take k ds), n, if k = 0 then None else Some (k - 1))"
proof -
  let ?inc = "take k ds" and ?flat = "take n (drop k ds)"
  have len: "length ?inc = k" "length ?flat = n" using assms(1) by simp_all
  have split: "take (k + n) ds = ?inc @ ?flat"
    by (simp add: take_add)
  have "d \<le> last (0 # ?inc)" if "d \<in> set ?flat" for d
  proof -
    from that obtain i where "i < length ?flat" "d = ?flat ! i"
      by (auto simp: in_set_conv_nth)
    with len assms(1,3) show ?thesis by simp
  qed
  then have flat: "\<forall>d \<in> set ?flat. d \<le> last (0 # ?inc)" by blast
  have "replay ?inc = (last (0 # ?inc), 0, if ?inc = [] then None else Some (length ?inc - 1))"
    by (rule replay_improving [OF assms(2)])
  from replay_plateau [OF this flat] show ?thesis
    using len assms(1) unfolding split by (cases "k = 0") auto
qed

subsection \<open>One epoch\<close>



lemma run_phases_Inr_loaders:
  "run_phases T train_loader val_loader w = Inr x \<Longrightarrow> train_loader \<noteq> [] \<and> val_loader \<noteq> []"
  by (auto simp: run_phases_def run_epoch_def split: sum.splits prod.splits if_splits)

lemma GeneralizedDice_with_loss [simp]: "GeneralizedDice (with_loss l m) = GeneralizedDice m"
  by (simp add: with_loss_def)

lemma epoch_body_Inr:
  assumes "epoch_body T train_loader val_loader e st = Inr (b, st')"
  shows "\<exists>tr va w. run_phases T train_loader val_loader (live st) = Inr (tr, va, w)
    \<and> epoch_val_metrics st' = epoch_val_metrics st @ [with_loss (fst va) (snd va)]
    \<and> epoch_train_metrics st' = epoch_train_metrics st @ [with_loss (fst tr) (snd tr)]
    \<and> epoch st' = Some e
    \<and> best_dice st' = (if GeneralizedDice (snd va) > best_dice st
                          then GeneralizedDice (snd va) else best_dice st)
    \<and> no_improve st' = (if GeneralizedDice (snd va) > best_dice st then 0 else no_improve st + 1)
    \<and> best_model_state st' = (if GeneralizedDice (snd va) > best_dice st
                                 then Some (model_state w) else best_model_state st)
    \<and> (b \<longleftrightarrow> \<not> GeneralizedDice (snd va) > best_dice st \<and> no_improve st + 1 = patience)
    \<and> epoch_times st' = (if b then epoch_times st else epoch_times st @ [epoch_seconds T e])
    \<and> live st' = (if b then w else reset_metrics T (scheduler_step T (fst va) w))"
proof (cases "run_phases T train_loader val_loader (live st)")
  case (Inl err)
  with assms show ?thesis by (simp add: epoch_body_def)
next
  case (Inr x)
  obtain tl tm vl vm w where x: "x = ((tl, tm), (vl, vm), w)"
    by (metis prod_cases3 surj_pair)
  have "epoch_val_metrics st' = epoch_val_metrics st @ [with_loss vl vm]
    \<and> epoch_train_metrics st' = epoch_train_metrics st @ [with_loss tl tm]
    \<and> epoch st' = Some e
    \<and> best_dice st' = (if GeneralizedDice vm > best_dice st then GeneralizedDice vm else best_dice st)
    \<and> no_improve st' = (if GeneralizedDice vm > best_dice st then 0 else no_improve st + 1)
    \<and> best_model_state st' = (if GeneralizedDice vm > best_dice st
                                 then Some (model_state w) else best_model_state st)
    \<and> (b \<longleftrightarrow> \<not> GeneralizedDice vm > best_dice st \<and> no_improve st + 1 = patience)
    \<and> epoch_times st' = (if b then epoch_times st else epoch_times st @ [epoch_seconds T e])
    \<and> live st' = (if b then w else reset_metrics T (scheduler_step T vl w))"
    using assms Inr x
    by (auto simp: epoch_body_def Let_def end_of_epoch_def split: if_splits)
  then show ?thesis
    using Inr x by (intro exI [of _ "(tl, tm)"] exI [of _ "(vl, vm)"] exI [of _ w]) simp
qed


subsection \<open>The loop\<close>

lemma epoch_loop_append:
  "epoch_loop T train_loader val_loader (xs @ ys) st =
     (case epoch_loop T train_loader val_loader xs st of
        Inl err \<Rightarrow> Inl err
      | Inr (True, st') \<Rightarrow> Inr (True, st')
      | Inr (False, st') \<Rightarrow> epoch_loop T train_loader val_loader ys st')"
  by (induction xs arbitrary: st) (auto split: sum.splits prod.splits bool.splits)

lemma epochs_upto_Suc:
  "epochs_upto T train_loader val_loader w0 (Suc n) =
     (case epochs_upto T train_loader val_loader w0 n of
        Inl err \<Rightarrow> Inl err
      | Inr (True, st) \<Rightarrow> Inr (True, st)
      | Inr (False, st) \<Rightarrow> epoch_body T train_loader val_loader n st)"
  by (auto simp: epoch_loop_append split: sum.splits prod.splits bool.splits)

lemma epochs_upto_broke:
  assumes "epochs_upto T train_loader val_loader w0 m = Inr (True, st)" and "m \<le> n"
  shows "epochs_upto T train_loader val_loader w0 n = Inr (True, st)"
  using assms(2)
proof (induction n)
  case 0
  then show ?case using assms(1) by simp
next
  case (Suc n)
  show ?case
  proof (cases "m = Suc n")
    case True
    then show ?thesis using assms(1) by simp
  next
    case False
    with Suc have "epochs_upto T train_loader val_loader w0 n = Inr (True, st)" by simp
    then show ?thesis by (subst epochs_upto_Suc) simp
  qed
qed

lemma epochs_upto_invariant:
  "epochs_upto T train_loader val_loader w0 n = Inr (b, st) \<Longrightarrow>
     length (epoch_val_metrics st) \<le> n
   \<and> (\<not> b \<longrightarrow> length (epoch_val_metrics st) = n)
   \<and> length (epoch_train_metrics st) = length (epoch_val_metrics st)
   \<and> length (epoch_times st) = (if b then length (epoch_val_metrics st) - 1
                                 else length (epoch_val_metrics st))
   \<and> epoch st = (if epoch_val_metrics st = [] then None
                  else Some (length (epoch_val_metrics st) - 1))
   \<and> fst (replay (dice_scores (epoch_val_metrics st))) = best_dice st
   \<and> fst (snd (replay (dice_scores (epoch_val_metrics st)))) = no_improve st
   \<and> (case snd (snd (replay (dice_scores (epoch_val_metrics st)))) of
         None \<Rightarrow> best_model_state st = None
       | Some e \<Rightarrow> \<exists>w. best_model_state st = Some w
                   \<and> weights_after_validation T train_loader val_loader w0 e = Some w)
   \<and> (b \<longleftrightarrow> no_improve st = patience)
   \<and> no_improve st \<le> patience"
proof (induction n arbitrary: b st)
  case 0
  then show ?case
    by (auto simp: initial_state_def replay_Nil dice_scores_def patience_def)
next
  case (Suc n)
  let ?S = "epochs_upto T train_loader val_loader w0 n"
  from Suc.prems have step:
    "(case ?S of Inl err \<Rightarrow> Inl err | Inr (True, s) \<Rightarrow> Inr (True, s)
      | Inr (False, s) \<Rightarrow> epoch_body T train_loader val_loader n s) = Inr (b, st)"
    by (simp only: epochs_upto_Suc)
  then obtain b' s where S: "?S = Inr (b', s)"
    by (cases ?S) auto
  show ?case
  proof (cases b')
    case True
    with S have S': "?S = Inr (True, s)" by simp
    with step have eq: "b = True" "st = s" by simp_all
    from Suc.IH [OF S'] show ?thesis
      unfolding eq by simp
  next
    case False
    with S have S': "?S = Inr (False, s)" by simp
    with step have body: "epoch_body T train_loader val_loader n s = Inr (b, st)" by simp
    note IH = Suc.IH [OF S']
    from IH have len: "length (epoch_val_metrics s) = n" by simp
    from epoch_body_Inr [OF body] obtain tr va w where
      rp: "run_phases T train_loader val_loader (live s) = Inr (tr, va, w)"
      and val: "epoch_val_metrics st = epoch_val_metrics s @ [with_loss (fst va) (snd va)]"
      and train: "epoch_train_metrics st = epoch_train_metrics s @ [with_loss (fst tr) (snd tr)]"
      and ep: "epoch st = Some n"
      and best: "best_dice st = (if GeneralizedDice (snd va) > best_dice s
                          then GeneralizedDice (snd va) else best_dice s)"
      and ni: "no_improve st = (if GeneralizedDice (snd va) > best_dice s then 0 else no_improve s + 1)"
      and bms: "best_model_state st = (if GeneralizedDice (snd va) > best_dice s
                                 then Some (model_state w) else best_model_state s)"
      and b: "b \<longleftrightarrow> \<not> GeneralizedDice (snd va) > best_dice s \<and> no_improve s + 1 = patience"
      and times: "epoch_times st = (if b then epoch_times s else epoch_times s @ [epoch_seconds T n])"
      by blast
    let ?ds = "dice_scores (epoch_val_metrics s)"
    let ?d = "GeneralizedDice (snd va)"
    obtain be where r: "replay ?ds = (best_dice s, no_improve s, be)"
      using IH by (cases "replay ?ds") auto
    have ds': "dice_scores (epoch_val_metrics st) = ?ds @ [?d]"
      by (simp add: val dice_scores_def)
    have r': "replay (dice_scores (epoch_val_metrics st)) =
                (if ?d > best_dice s then (?d, 0, Some n) else (best_dice s, no_improve s + 1, be))"
      unfolding ds' replay_snoc r using len by (simp add: dice_scores_def)
    have wav: "weights_after_validation T train_loader val_loader w0 n = Some (model_state w)"
      using S' rp by (simp add: weights_after_validation_def)
    have ni_s: "no_improve s < patience"
      using IH by auto
    have snap: "case be of None \<Rightarrow> best_model_state s = None
                  | Some e \<Rightarrow> \<exists>w. best_model_state s = Some w
                       \<and> weights_after_validation T train_loader val_loader w0 e = Some w"
      using IH r by simp
    have tlen: "length (epoch_times s) = n" "length (epoch_train_metrics s) = n"
      using IH len by simp_all
    show ?thesis
    proof (cases "?d > best_dice s")
      case True
      then show ?thesis
        using r' val train ep best ni bms b times wav len tlen
        by (simp add: patience_def)
    next
      case nimp: False
      then show ?thesis
        using r' val train ep best ni bms b times snap len tlen ni_s
        by (cases be) simp_all
    qed
  qed
qed


lemma epochs_upto_prefix:
  "epochs_upto T train_loader val_loader w0 n = Inr (b, st) \<Longrightarrow>
   i < length (epoch_val_metrics st) \<Longrightarrow>
     \<exists>s tr va w. epochs_upto T train_loader val_loader w0 i = Inr (False, s)
       \<and> epoch_val_metrics s = take i (epoch_val_metrics st)
       \<and> run_phases T train_loader val_loader (live s) = Inr (tr, va, w)
       \<and> epoch_val_metrics st ! i = with_loss (fst va) (snd va)
       \<and> epoch_train_metrics st ! i = with_loss (fst tr) (snd tr)"
proof (induction n arbitrary: b st)
  case 0
  then show ?case by (auto simp: initial_state_def)
next
  case (Suc n)
  let ?S = "epochs_upto T train_loader val_loader w0 n"
  from Suc.prems(1) have step:
    "(case ?S of Inl err \<Rightarrow> Inl err | Inr (True, s) \<Rightarrow> Inr (True, s)
      | Inr (False, s) \<Rightarrow> epoch_body T train_loader val_loader n s) = Inr (b, st)"
    by (simp only: epochs_upto_Suc)
  then obtain b' s where S: "?S = Inr (b', s)"
    by (cases ?S) auto
  show ?case
  proof (cases b')
    case True
    with S have S': "?S = Inr (True, s)" by simp
    with step have "st = s" by simp
    with Suc.IH [OF S'] Suc.prems(2) show ?thesis by simp
  next
    case False
    with S have S': "?S = Inr (False, s)" by simp
    with step have body: "epoch_body T train_loader val_loader n s = Inr (b, st)" by simp
    from epochs_upto_invariant [OF S'] have len: "length (epoch_val_metrics s) = n"
      and tlen: "length (epoch_train_metrics s) = n" by simp_all
    from epoch_body_Inr [OF body] obtain tr va w where
      rp: "run_phases T train_loader val_loader (live s) = Inr (tr, va, w)"
      and val: "epoch_val_metrics st = epoch_val_metrics s @ [with_loss (fst va) (snd va)]"
      and train: "epoch_train_metrics st = epoch_train_metrics s @ [with_loss (fst tr) (snd tr)]"
      by blast
    show ?thesis
    proof (cases "i = n")
      case True
      then have "epochs_upto T train_loader val_loader w0 i = Inr (False, s)
       \<and> epoch_val_metrics s = take i (epoch_val_metrics st)
       \<and> run_phases T train_loader val_loader (live s) = Inr (tr, va, w)
       \<and> epoch_val_metrics st ! i = with_loss (fst va) (snd va)
       \<and> epoch_train_metrics st ! i = with_loss (fst tr) (snd tr)"
        using S' rp val train len tlen by (simp add: nth_append)
      then show ?thesis by blast
    next
      case False
      with Suc.prems(2) val len have i: "i < length (epoch_val_metrics s)" by simp
      from Suc.IH [OF S' i] obtain s' tr' va' w' where
        "epochs_upto T train_loader val_loader w0 i = Inr (False, s')"
        "epoch_val_metrics s' = take i (epoch_val_metrics s)"
        "run_phases T train_loader val_loader (live s') = Inr (tr', va', w')"
        "epoch_val_metrics s ! i = with_loss (fst va') (snd va')"
        "epoch_train_metrics s ! i = with_loss (fst tr') (snd tr')"
        by blast
      then have "epochs_upto T train_loader val_loader w0 i = Inr (False, s')
       \<and> epoch_val_metrics s' = take i (epoch_val_metrics st)
       \<and> run_phases T train_loader val_loader (live s') = Inr (tr', va', w')
       \<and> epoch_val_metrics st ! i = with_loss (fst va') (snd va')
       \<and> epoch_train_metrics st ! i = with_loss (fst tr') (snd tr')"
        using i val train len tlen by (simp add: nth_append)
      then show ?thesis by blast
    qed
  qed
qed

lemma replay_no_improve_le: "fst (snd (replay ds)) \<le> length ds"
  using replay_facts [of ds] by (cases "replay ds") auto

lemma finish_returns:
  assumes S: "epochs_upto T train_loader val_loader w0 n = Inr (b, st)" and n: "0 < n"
  shows "0 < length (epoch_val_metrics st) \<and>
     finish st = Inr \<lparr>ret_model = (case best_model_state st of None \<Rightarrow> live st
                                   | Some best \<Rightarrow> (live st)\<lparr>model_state := best\<rparr>),
                      ret_best_dice = best_dice st,
                      ret_epoch_times = epoch_times st,
                      ret_total_time = sum_list (epoch_times st),
                      ret_avg_epoch_time = sum_list (epoch_times st) / real (length (epoch_times st)),
                      ret_epochs_run = length (epoch_val_metrics st),
                      ret_epoch_val_metrics = epoch_val_metrics st,
                      ret_epoch_train_metrics = epoch_train_metrics st\<rparr>"
proof -
  note inv = epochs_upto_invariant [OF S]
  let ?N = "length (epoch_val_metrics st)"
  have "7 \<le> ?N" if b
  proof -
    from that inv have "no_improve st = 7" by (simp add: patience_def)
    with inv replay_no_improve_le [of "dice_scores (epoch_val_metrics st)"]
    show ?thesis by (simp add: dice_scores_def)
  qed
  moreover have "?N = n" if "\<not> b" using that inv by simp
  ultimately have N: "0 < ?N"
    using n by (cases b) auto
  have tl: "length (epoch_times st) = (if b then ?N - 1 else ?N)"
    using inv by simp
  have t: "0 < length (epoch_times st)"
  proof (cases b)
    case True
    with \<open>b \<Longrightarrow> 7 \<le> ?N\<close> tl show ?thesis by simp
  next
    case False
    with N tl show ?thesis by simp
  qed
  from N have "epoch_val_metrics st \<noteq> []" by auto
  with inv have "epoch st = Some (?N - 1)" by simp
  with N t show ?thesis
    by (simp add: finish_def Let_def)
qed

subsection \<open>The result of train\_model\<close>

lemma train_model_Inr:
  assumes "train_model T train_loader val_loader epochs w0 = Inr r"
  shows "\<exists>b st. 0 < epochs
     \<and> epochs_upto T train_loader val_loader w0 epochs = Inr (b, st)
     \<and> ret_model r = (case best_model_state st of None \<Rightarrow> live st
                        | Some best \<Rightarrow> (live st)\<lparr>model_state := best\<rparr>)
     \<and> ret_best_dice r = best_dice st
     \<and> ret_epoch_times r = epoch_times st
     \<and> ret_total_time r = sum_list (epoch_times st)
     \<and> ret_epochs_run r = length (epoch_val_metrics st)
     \<and> ret_epoch_val_metrics r = epoch_val_metrics st
     \<and> ret_epoch_train_metrics r = epoch_train_metrics st"
proof -
  from assms obtain b st where S: "epochs_upto T train_loader val_loader w0 epochs = Inr (b, st)"
    and f: "finish st = Inr r"
    by (auto simp: train_model_def split: sum.splits)
  have pos: "0 < epochs"
  proof (rule ccontr)
    assume "\<not> 0 < epochs"
    with S have "st = initial_state w0" by simp
    with f show False by (simp add: finish_def initial_state_def)
  qed
  from finish_returns [OF S pos] f show ?thesis
    using S pos by (intro exI [of _ b] exI [of _ st]) auto
qed

lemma dice_scores_take: "dice_scores (take m ms) = take m (dice_scores ms)"
  by (simp add: dice_scores_def take_map)

lemma length_dice_scores [simp]: "length (dice_scores ms) = length ms"
  by (simp add: dice_scores_def)

subsection \<open>A scripted run with early stop\<close>

text \<open>Scores that improve for three epochs and then do not for seven, with a budget of
  60 epochs.\<close>

lemma scripted_plateau_run:
  "train_model (scripted_torch plateau_scores) [1] [1] 60 fresh_world =
     Inr \<lparr>ret_model = \<lparr>model_state = 3, rest = ()\<rparr>, ret_best_dice = 3 / 10,
          ret_epoch_times = [1, 1, 1, 1, 1, 1, 1, 1, 1], ret_total_time = 9,
          ret_avg_epoch_time = 1, ret_epochs_run = 10,
          ret_epoch_val_metrics = map scripted_record (take 10 plateau_scores),
          ret_epoch_train_metrics = map scripted_record (take 10 plateau_scores)\<rparr>"
  by code_simp



text \<open>
  Claim C1, as the code has it, for a run of \<^verbatim>\<open>train_model\<close> that returns, with \<open>ds\<close> its
  recorded validation scores. If the scores rise strictly for \<open>k\<close> epochs, starting above
  0, and the next 7 do not exceed the last of them, the run has exactly \<open>k + 7\<close> epochs:
  no epoch is started after the seventh without improvement; and for \<open>k > 0\<close> the weights
  of the returned model are those that the live model had after the validation of epoch
  \<open>k - 1\<close>. On every return, by early stop or with the budget used up: if some score is
  above 0, the weights of the returned model are those after the validation of the
  first epoch that reached the highest score; if no score is above 0, no snapshot was
  taken and the returned model is the live one as the loop left it.
\<close>

theorem early_stop_and_restore:
  assumes run: "train_model T train_loader val_loader epochs w0 = Inr r"
    and ds: "ds = dice_scores (ret_epoch_val_metrics r)"
  shows "(k + 7 \<le> length ds \<and> sorted_wrt (<) (0 # take k ds)
            \<and> (\<forall>i < 7. ds ! (k + i) \<le> last (0 # take k ds))
          \<longrightarrow> ret_epochs_run r = k + 7 \<and> length ds = k + 7
              \<and> ret_best_dice r = last (0 # take k ds)
              \<and> (0 < k \<longrightarrow> weights_after_validation T train_loader val_loader w0 (k - 1)
                                = Some (model_state (ret_model r))))
       \<and> ((\<exists>d \<in> set ds. 0 < d)
          \<longrightarrow> (\<exists>e < length ds. ds ! e = Max (set ds) \<and> (\<forall>j < e. ds ! j < ds ! e)
                 \<and> ret_best_dice r = ds ! e
                 \<and> weights_after_validation T train_loader val_loader w0 e
                       = Some (model_state (ret_model r))))
       \<and> ((\<forall>d \<in> set ds. d \<le> 0)
          \<longrightarrow> (\<exists>b st. epochs_upto T train_loader val_loader w0 epochs = Inr (b, st)
                 \<and> ret_model r = live st))"
proof -
  from train_model_Inr [OF run] obtain b st where pos: "0 < epochs"
    and S: "epochs_upto T train_loader val_loader w0 epochs = Inr (b, st)"
    and model: "ret_model r = (case best_model_state st of None \<Rightarrow> live st
                        | Some best \<Rightarrow> (live st)\<lparr>model_state := best\<rparr>)"
    and r: "ret_best_dice r = best_dice st"
      "ret_epochs_run r = length (epoch_val_metrics st)"
      "ret_epoch_val_metrics r = epoch_val_metrics st"
    by blast
  note inv = epochs_upto_invariant [OF S]
  have ds': "ds = dice_scores (epoch_val_metrics st)" by (simp add: ds r)
  obtain best ni be where rep: "replay ds = (best, ni, be)"
    by (cases "replay ds") auto
  from inv rep have best: "best = best_dice st" and ni: "ni = no_improve st"
    and snap: "case be of None \<Rightarrow> best_model_state st = None
               | Some e \<Rightarrow> \<exists>w. best_model_state st = Some w
                    \<and> weights_after_validation T train_loader val_loader w0 e = Some w"
    unfolding ds' [symmetric] by simp_all
  have restored: "weights_after_validation T train_loader val_loader w0 e
                    = Some (model_state (ret_model r))" if "be = Some e" for e
    using snap that model by auto
  from replay_facts [of ds] rep have
    mx: "best = Max (insert 0 (set ds))"
    and none: "be = None \<Longrightarrow> \<forall>d \<in> set ds. d \<le> 0"
    and some: "\<And>e. be = Some e \<Longrightarrow> e < length ds \<and> ds ! e = best \<and> 0 < best \<and> (\<forall>j < e. ds ! j < best)"
    by auto
  have early: "ret_epochs_run r = k + 7 \<and> length ds = k + 7
              \<and> ret_best_dice r = last (0 # take k ds)
              \<and> (0 < k \<longrightarrow> weights_after_validation T train_loader val_loader w0 (k - 1)
                                = Some (model_state (ret_model r)))"
    if len: "k + 7 \<le> length ds" and inc: "sorted_wrt (<) (0 # take k ds)"
      and flat: "\<forall>i < 7. ds ! (k + i) \<le> last (0 # take k ds)"
  proof -
    have pat: "replay (take (k + 7) ds) = (last (0 # take k ds), 7, if k = 0 then None else Some (k - 1))"
      by (rule replay_pattern [OF len inc flat])
    have N: "length ds = k + 7"
    proof (rule ccontr)
      assume "length ds \<noteq> k + 7"
      with len have "k + 7 < length (epoch_val_metrics st)" by (simp add: ds')
      from epochs_upto_prefix [OF S this] obtain s where
        s: "epochs_upto T train_loader val_loader w0 (k + 7) = Inr (False, s)"
        and ms: "epoch_val_metrics s = take (k + 7) (epoch_val_metrics st)"
        by blast
      from epochs_upto_invariant [OF s] have
        "fst (snd (replay (dice_scores (epoch_val_metrics s)))) = no_improve s"
        and "no_improve s \<noteq> patience"
        by simp_all
      moreover have "dice_scores (epoch_val_metrics s) = take (k + 7) ds"
        by (simp add: ms ds' dice_scores_take)
      ultimately show False
        using pat by (simp add: patience_def)
    qed
    then have all: "take (k + 7) ds = ds" by simp
    from pat rep have b: "best = last (0 # take k ds)" and be: "be = (if k = 0 then None else Some (k - 1))"
      unfolding all by simp_all
    from N have "ret_epochs_run r = k + 7" by (simp add: r ds')
    moreover have "weights_after_validation T train_loader val_loader w0 (k - 1)
                     = Some (model_state (ret_model r))" if "0 < k"
      using restored [of "k - 1"] be that by simp
    ultimately show ?thesis
      using N b best by (simp add: r)
  qed
  have restore: "\<exists>e < length ds. ds ! e = Max (set ds) \<and> (\<forall>j < e. ds ! j < ds ! e)
                 \<and> ret_best_dice r = ds ! e
                 \<and> weights_after_validation T train_loader val_loader w0 e
                       = Some (model_state (ret_model r))"
    if pos_score: "\<exists>d \<in> set ds. 0 < d"
  proof -
    from pos_score none obtain e where e: "be = Some e"
      by (cases be) force+
    from some [OF e] have el: "e < length ds" and eb: "ds ! e = best" and b0: "0 < best"
      and first: "\<forall>j < e. ds ! j < best" by simp_all
    from el have ne: "set ds \<noteq> {}" by auto
    then have "Max (insert 0 (set ds)) = max 0 (Max (set ds))"
      by simp
    with mx b0 have "best = Max (set ds)" by simp
    with el eb first restored [OF e] best show ?thesis
      by (intro exI [of _ e]) (simp add: r)
  qed
  have keep: "\<exists>b st. epochs_upto T train_loader val_loader w0 epochs = Inr (b, st)
                 \<and> ret_model r = live st"
    if nonpos: "\<forall>d \<in> set ds. d \<le> 0"
  proof -
    have "be = None"
    proof (cases be)
      case None
      then show ?thesis .
    next
      case (Some e)
      from some [OF Some] have "e < length ds" "0 < ds ! e" by simp_all
      with nonpos have False by (metis nth_mem not_less)
      then show ?thesis ..
    qed
    with snap model S show ?thesis by auto
  qed
  from early restore keep show ?thesis by blast
qed

theorem early_stop_and_restore_witness:
  "\<exists>r. train_model (scripted_torch plateau_scores) [1] [1] 60 fresh_world = Inr r
     \<and> dice_scores (ret_epoch_val_metrics r)
         = [1 / 10, 2 / 10, 3 / 10, 3 / 10, 3 / 10, 2 / 10, 1 / 10, 3 / 10, 3 / 10, 3 / 10]
     \<and> ret_epochs_run r = 3 + 7
     \<and> ret_best_dice r = 3 / 10
     \<and> model_state (ret_model r) = 3
     \<and> weights_after_validation (scripted_torch plateau_scores) [1] [1] fresh_world (3 - 1)
          = Some (model_state (ret_model r))"
proof -
  let ?r = "\<lparr>ret_model = \<lparr>model_state = 3 :: nat, rest = ()\<rparr>, ret_best_dice = 3 / 10,
          ret_epoch_times = [1, 1, 1, 1, 1, 1, 1, 1, 1], ret_total_time = 9,
          ret_avg_epoch_time = 1, ret_epochs_run = 10,
          ret_epoch_val_metrics = map scripted_record (take 10 plateau_scores),
          ret_epoch_train_metrics = map scripted_record (take 10 plateau_scores)\<rparr>"
  let ?ds = "[1 / 10, 2 / 10, 3 / 10, 3 / 10, 3 / 10, 2 / 10, 1 / 10, 3 / 10, 3 / 10, 3 / 10] :: real list"
  have ds: "?ds = dice_scores (ret_epoch_val_metrics ?r)"
    by (simp add: dice_scores_def scripted_record_def plateau_scores_def)
  have flat: "\<forall>i < 7. ?ds ! (3 + i) \<le> last (0 # take 3 ?ds)"
  proof (intro allI impI)
    fix i :: nat
    assume "i < 7"
    then consider "i = 0" | "i = 1" | "i = 2" | "i = 3" | "i = 4" | "i = 5" | "i = 6"
      by linarith
    then show "?ds ! (3 + i) \<le> last (0 # take 3 ?ds)"
      by cases simp_all
  qed
  have hyp: "3 + 7 \<le> length ?ds \<and> sorted_wrt (<) (0 # take 3 ?ds)
            \<and> (\<forall>i < 7. ?ds ! (3 + i) \<le> last (0 # take 3 ?ds))"
    using flat by simp
  note inst = early_stop_and_restore [OF scripted_plateau_run ds, of 3]
  from inst [THEN conjunct1, THEN mp, OF hyp]
  have "ret_epochs_run ?r = 3 + 7
        \<and> weights_after_validation (scripted_torch plateau_scores) [1] [1] fresh_world (3 - 1)
            = Some (model_state (ret_model ?r))"
    by simp
  then show ?thesis
    using scripted_plateau_run ds [symmetric] by (intro exI [of _ ?r]) simp
qed

text \<open>
  A run in which every validation score is 0, with a budget of 10 epochs: it stops after
  7 epochs, no snapshot was taken, and the returned model has the weights 7 of the last
  epoch, not the weights 1 that the live model had after the first epoch, which scored
  as well as any.
\<close>

theorem no_snapshot_counterexample:
  "train_model (scripted_torch []) [1] [1] 10 fresh_world =
     Inr \<lparr>ret_model = \<lparr>model_state = 7, rest = ()\<rparr>, ret_best_dice = 0,
          ret_epoch_times = [1, 1, 1, 1, 1, 1], ret_total_time = 6,
          ret_avg_epoch_time = 1, ret_epochs_run = 7,
          ret_epoch_val_metrics = replicate 7 (scripted_record 0),
          ret_epoch_train_metrics = replicate 7 (scripted_record 0)\<rparr>
   \<and> weights_after_validation (scripted_torch []) [1] [1] fresh_world 0 = Some 1
   \<and> weights_after_validation (scripted_torch []) [1] [1] fresh_world 6 = Some 7"
  by code_simp

end
